theory Spec2Isabelle
  imports Complex_Main "HOL-Library.Stream"
begin

section \<open>Conventions of the embedding\<close>

text \<open>
  The program is JavaScript. Its numbers are modelled as follows: counters, slot and bar
  indices, array indices and MIDI numbers are integers (\<open>nat\<close> where the code keeps them
  non-negative, \<open>int\<close> otherwise); clock times, tempo, durations and gains are exact
  reals, so rounding of IEEE doubles is not part of the model. An array read outside the
  array yields \<open>undefined\<close> in JavaScript, which is \<open>None\<close> here. A call that may throw
  returns a \<open>completion\<close>; \<open>try { ... } catch {}\<close> is \<open>try_catch\<close>. Calls into the
  audio graph are recorded, in order, in a list of calls made; an instrument's \<open>play\<close>,
  which the source wraps in \<open>try\<close>/\<open>catch\<close>, may throw. The tempo divides: results that
  speak about durations assume a positive tempo, where real division is the program's.
\<close>

datatype 'a completion = Returns 'a | Throws 'a

text \<open>\<open>try { f() } catch {}\<close>: whatever \<open>f\<close> did before it threw stays done, the exception is dropped.\<close>

fun try_catch :: "'a completion \<Rightarrow> 'a" where
  "try_catch (Returns a) = a"
| "try_catch (Throws a) = a"

text \<open>\<open>a % b\<close> on integers: the remainder has the sign of the dividend.\<close>

definition js_rem :: "int \<Rightarrow> int \<Rightarrow> int" where
  "js_rem a b = sgn a * (\<bar>a\<bar> mod \<bar>b\<bar>)"

text \<open>\<open>xs[i]\<close> for an integer \<open>i\<close>: \<open>undefined\<close> outside \<open>0 .. length - 1\<close>.\<close>

definition js_index :: "'a list \<Rightarrow> int \<Rightarrow> 'a option" where
  "js_index xs i = (if 0 \<le> i \<and> i < int (length xs) then Some (xs ! nat i) else None)"

section \<open>Note names and MIDI numbers (Techno.jsx)\<close>

definition NOTE_INDEX :: "(string \<times> int) list" where
  "NOTE_INDEX =
    [(''C'', 0), (''C#'', 1), (''Db'', 1), (''D'', 2), (''D#'', 3), (''Eb'', 3), (''E'', 4),
     (''F'', 5), (''F#'', 6), (''Gb'', 6), (''G'', 7), (''G#'', 8), (''Ab'', 8), (''A'', 9),
     (''A#'', 10), (''Bb'', 10), (''B'', 11)]"

definition NOTE_NAMES_SHARP :: "string list" where
  "NOTE_NAMES_SHARP =
    [''C'', ''C#'', ''D'', ''D#'', ''E'', ''F'', ''F#'', ''G'', ''G#'', ''A'', ''A#'', ''B'']"

text \<open>The regular expression \<open>\d\<close> and the value \<open>Number\<close> gives to one digit.\<close>

definition digitVal :: "char \<Rightarrow> int option" where
  "digitVal c = map_of
    [(CHR ''0'', 0), (CHR ''1'', 1), (CHR ''2'', 2), (CHR ''3'', 3), (CHR ''4'', 4),
     (CHR ''5'', 5), (CHR ''6'', 6), (CHR ''7'', 7), (CHR ''8'', 8), (CHR ''9'', 9)] c"

text \<open>
  \<open>/^([A-G](?:b|#)?)(-?\d)$/.exec(note)\<close>: the two capture groups, or \<open>None\<close> when the
  string does not match. The accidental is optional and greedy; dropping it on
  backtracking cannot help, since \<open>b\<close> and \<open>#\<close> are neither a minus sign nor a digit.
\<close>

definition matchOctave :: "string \<Rightarrow> string option" where
  "matchOctave r =
    (case r of
       [d] \<Rightarrow> (if digitVal d \<noteq> None then Some [d] else None)
     | [m, d] \<Rightarrow> (if m = CHR ''-'' \<and> digitVal d \<noteq> None then Some [m, d] else None)
     | _ \<Rightarrow> None)"

definition matchNote :: "string \<Rightarrow> (string \<times> string) option" where
  "matchNote note =
    (case note of
       [] \<Rightarrow> None
     | c # r \<Rightarrow>
        if c \<notin> set ''ABCDEFG'' then None
        else (case r of
                a # r' \<Rightarrow>
                  if a = CHR ''b'' \<or> a = CHR ''#''
                  then map_option (Pair [c, a]) (matchOctave r')
                  else map_option (Pair [c]) (matchOctave r)
              | [] \<Rightarrow> None))"

text \<open>\<open>Number(octaveStr)\<close> on a string the regular expression let through.\<close>

definition octaveNumber :: "string \<Rightarrow> int" where
  "octaveNumber s =
    (case s of
       [d] \<Rightarrow> (case digitVal d of Some v \<Rightarrow> v | None \<Rightarrow> 0)
     | [m, d] \<Rightarrow> (case digitVal d of Some v \<Rightarrow> - v | None \<Rightarrow> 0)
     | _ \<Rightarrow> 0)"

definition noteToMidi :: "string \<Rightarrow> int" where
  "noteToMidi note =
    (case matchNote note of
       None \<Rightarrow> 60
     | Some (name, octaveStr) \<Rightarrow>
        (let octave = octaveNumber octaveStr;
             base = (case map_of NOTE_INDEX name of Some b \<Rightarrow> b | None \<Rightarrow> 0)
         in base + (octave + 1) * 12))"

text \<open>Decimal rendering of an integer, as a template literal gives it.\<close>

fun showNat :: "nat \<Rightarrow> string" where
  "showNat n = (if n < 10 then [''0123456789'' ! n]
                else showNat (n div 10) @ [''0123456789'' ! (n mod 10)])"

definition showInt :: "int \<Rightarrow> string" where
  "showInt i = (if i < 0 then CHR ''-'' # showNat (nat (- i)) else showNat (nat i))"

text \<open>\<open>Math.round\<close> rounds halves upwards.\<close>

definition Math_round :: "real \<Rightarrow> int" where
  "Math_round x = \<lfloor>x + 1 / 2\<rfloor>"

definition midiToNote :: "real \<Rightarrow> string" where
  "midiToNote midi =
    (let clamped = max 0 (min 127 (Math_round midi));
         octave = clamped div 12 - 1;
         name = NOTE_NAMES_SHARP ! nat (clamped mod 12)
     in name @ showInt octave)"

definition transpose_note :: "string \<Rightarrow> int \<Rightarrow> string" where
  "transpose_note note semitones = midiToNote (of_int (noteToMidi note + semitones))"

section \<open>Arrangement and chords (Techno.jsx)\<close>

text \<open>
  A section of the arrangement. The source's field \<open>name\<close> is \<open>name\<close>, \<open>bars\<close> is \<open>bars\<close>;
  the weights of \<open>intensity\<close> carry the prefix \<open>i_\<close>, since a chord has fields \<open>pad\<close>,
  \<open>lead\<close> and \<open>bass\<close> too.
\<close>

record intensity =
  i_kick :: real
  i_clap :: real
  i_hatsClosed :: real
  i_hatsShuffle :: real
  i_hatsOpen :: real
  i_bass :: real
  i_pad :: real
  i_lead :: real
  i_fx :: real

record sect =
  name :: string
  bars :: int
  intensity :: intensity
  bassPattern :: string
  leadPattern :: string
  hatPattern :: string
  fxMode :: string

definition ARRANGEMENT :: "sect list" where
  "ARRANGEMENT =
    [\<lparr>name = ''Distant Intro'', bars = 16,
      intensity = \<lparr>i_kick = 0.35, i_clap = 0, i_hatsClosed = 0.18, i_hatsShuffle = 0.08,
        i_hatsOpen = 0, i_bass = 0, i_pad = 0.9, i_lead = 0, i_fx = 0.65\<rparr>,
      bassPattern = ''none'', leadPattern = ''none'', hatPattern = ''light'', fxMode = ''wash''\<rparr>,
     \<lparr>name = ''Warm Build'', bars = 32,
      intensity = \<lparr>i_kick = 0.7, i_clap = 0.25, i_hatsClosed = 0.4, i_hatsShuffle = 0.3,
        i_hatsOpen = 0.15, i_bass = 0.45, i_pad = 1.0, i_lead = 0.25, i_fx = 0.75\<rparr>,
      bassPattern = ''minimal'', leadPattern = ''tease'', hatPattern = ''light'', fxMode = ''lift''\<rparr>,
     \<lparr>name = ''Drop One'', bars = 32,
      intensity = \<lparr>i_kick = 1.05, i_clap = 0.55, i_hatsClosed = 0.9, i_hatsShuffle = 0.6,
        i_hatsOpen = 0.35, i_bass = 1.1, i_pad = 0.6, i_lead = 0.75, i_fx = 0.85\<rparr>,
      bassPattern = ''driving'', leadPattern = ''sparkle'', hatPattern = ''wide'', fxMode = ''impact''\<rparr>,
     \<lparr>name = ''Airy Breakdown'', bars = 16,
      intensity = \<lparr>i_kick = 0.4, i_clap = 0.2, i_hatsClosed = 0.25, i_hatsShuffle = 0.12,
        i_hatsOpen = 0.08, i_bass = 0.3, i_pad = 1.0, i_lead = 0.2, i_fx = 0.9\<rparr>,
      bassPattern = ''minimal'', leadPattern = ''tease'', hatPattern = ''light'', fxMode = ''dive''\<rparr>,
     \<lparr>name = ''Second Build'', bars = 32,
      intensity = \<lparr>i_kick = 0.9, i_clap = 0.45, i_hatsClosed = 0.8, i_hatsShuffle = 0.55,
        i_hatsOpen = 0.3, i_bass = 0.9, i_pad = 0.8, i_lead = 0.6, i_fx = 0.8\<rparr>,
      bassPattern = ''rolling'', leadPattern = ''sparkle'', hatPattern = ''tight'', fxMode = ''lift''\<rparr>,
     \<lparr>name = ''Final Drop'', bars = 24,
      intensity = \<lparr>i_kick = 1.1, i_clap = 0.6, i_hatsClosed = 1.0, i_hatsShuffle = 0.75,
        i_hatsOpen = 0.5, i_bass = 1.15, i_pad = 0.7, i_lead = 0.95, i_fx = 0.9\<rparr>,
      bassPattern = ''anthem'', leadPattern = ''anthem'', hatPattern = ''wide'', fxMode = ''impact''\<rparr>,
     \<lparr>name = ''Outro Fade'', bars = 16,
      intensity = \<lparr>i_kick = 0.55, i_clap = 0.2, i_hatsClosed = 0.35, i_hatsShuffle = 0.15,
        i_hatsOpen = 0.05, i_bass = 0.35, i_pad = 0.9, i_lead = 0.1, i_fx = 0.7\<rparr>,
      bassPattern = ''minimal'', leadPattern = ''none'', hatPattern = ''light'', fxMode = ''wash''\<rparr>]"

text \<open>\<open>ARRANGEMENT.reduce((acc, section) => acc + section.bars, 0)\<close>\<close>

definition totalBars :: "sect list \<Rightarrow> int" where
  "totalBars arr = foldl (\<lambda>acc s. acc + bars s) 0 arr"

definition TOTAL_BARS :: int where
  "TOTAL_BARS = totalBars ARRANGEMENT"

record bass_notes =
  root :: string
  fifth :: string
  octave :: string

record chord =
  pad :: "string list"
  lead :: "string list"
  bass :: bass_notes

definition fm9 :: chord where
  "fm9 = \<lparr>pad = [''F3'', ''Ab3'', ''C4'', ''Eb4'', ''G4''],
          lead = [''C5'', ''Eb5'', ''F5'', ''G5'', ''Bb5'', ''C6''],
          bass = \<lparr>root = ''F2'', fifth = ''C3'', octave = ''F3''\<rparr>\<rparr>"

definition dbMaj9 :: chord where
  "dbMaj9 = \<lparr>pad = [''Db3'', ''F3'', ''Ab3'', ''C4'', ''Eb4''],
             lead = [''Ab4'', ''C5'', ''Db5'', ''F5'', ''G5'', ''Ab5''],
             bass = \<lparr>root = ''Db2'', fifth = ''Ab2'', octave = ''Db3''\<rparr>\<rparr>"

definition eb7sus :: chord where
  "eb7sus = \<lparr>pad = [''Eb3'', ''Ab3'', ''Bb3'', ''Db4'', ''F4''],
             lead = [''Bb4'', ''Db5'', ''Eb5'', ''F5'', ''G5'', ''Bb5''],
             bass = \<lparr>root = ''Eb2'', fifth = ''Bb2'', octave = ''Eb3''\<rparr>\<rparr>"

definition c7 :: chord where
  "c7 = \<lparr>pad = [''C3'', ''E3'', ''G3'', ''Bb3'', ''D4''],
         lead = [''G4'', ''Bb4'', ''C5'', ''D5'', ''E5'', ''G5''],
         bass = \<lparr>root = ''C2'', fifth = ''G2'', octave = ''C3''\<rparr>\<rparr>"

definition bbMin9 :: chord where
  "bbMin9 = \<lparr>pad = [''Bb2'', ''Db3'', ''F3'', ''Ab3'', ''C4''],
             lead = [''F4'', ''Ab4'', ''Bb4'', ''C5'', ''Db5'', ''F5''],
             bass = \<lparr>root = ''Bb1'', fifth = ''F2'', octave = ''Bb2''\<rparr>\<rparr>"

definition abMaj9 :: chord where
  "abMaj9 = \<lparr>pad = [''Ab2'', ''C3'', ''Eb3'', ''G3'', ''Bb3''],
             lead = [''Eb4'', ''G4'', ''Ab4'', ''Bb4'', ''C5'', ''Eb5''],
             bass = \<lparr>root = ''Ab1'', fifth = ''Eb2'', octave = ''Ab2''\<rparr>\<rparr>"

definition CHORD_SEQUENCE :: "chord list" where
  "CHORD_SEQUENCE = [fm9, dbMaj9, eb7sus, c7, fm9, abMaj9, bbMin9, c7]"

section \<open>Timeline resolver: \<open>getSectionForBar\<close> (Techno.jsx)\<close>

text \<open>The object \<open>getSectionForBar\<close> returns; \<open>sect\<close> is its field \<open>section\<close>.\<close>

record lookup =
  sect :: sect
  index :: nat
  offset :: int
  isSectionStart :: bool

text \<open>
  The \<open>for\<close> loop over the arrangement: \<open>rest\<close> holds the sections from position \<open>i\<close> on,
  \<open>cursor\<close> the first bar of section \<open>i\<close>. \<open>None\<close> when the loop runs off the end.
\<close>

fun scanSections :: "sect list \<Rightarrow> nat \<Rightarrow> int \<Rightarrow> int \<Rightarrow> lookup option" where
  "scanSections [] i cursor bar = None"
| "scanSections (s # rest) i cursor bar =
    (let start = cursor; stop = cursor + bars s
     in if bar < stop
        then Some \<lparr>sect = s, index = i, offset = bar - start, isSectionStart = (bar = start)\<rparr>
        else scanSections rest (Suc i) stop bar)"

text \<open>
  The whole function over a given arrangement. With an empty arrangement the code reads
  \<open>ARRANGEMENT[-1].bars\<close>, a TypeError: \<open>None\<close>.
\<close>

definition resolveBar :: "sect list \<Rightarrow> int \<Rightarrow> lookup option" where
  "resolveBar arr bar =
    (case scanSections arr 0 0 bar of
       Some r \<Rightarrow> Some r
     | None \<Rightarrow>
        if arr = [] then None
        else (let lastIndex = length arr - 1
              in Some \<lparr>sect = arr ! lastIndex, index = lastIndex,
                        offset = bars (arr ! lastIndex) - 1, isSectionStart = False\<rparr>))"

definition getSectionForBar :: "int \<Rightarrow> lookup option" where
  "getSectionForBar bar = resolveBar ARRANGEMENT bar"

text \<open>The first bar of section \<open>i\<close>: the sum of the lengths before it.\<close>

definition sectionStart :: "sect list \<Rightarrow> nat \<Rightarrow> int" where
  "sectionStart arr i = totalBars (take i arr)"

section \<open>The Director: triggers and the bar handler (Techno.jsx)\<close>

text \<open>
  What the Director hands to the audio side, in the order of the calls: an instrument's
  \<open>play(note, time, {gain, duration})\<close> (with the instrument's role), the noise effects, the
  two automation calls on the master gain and the deferred stop of \<open>setTimeout\<close>.
\<close>

datatype sink_call =
    Play string "string option" real real real
  | Impact real real
  | Riser real real real
  | Downshift real real real
  | CancelScheduledValues real
  | SetTargetAtTime real real real
  | DeferredStop real

text \<open>A loaded instrument: whether \<open>play\<close> throws on the given note, time, gain and duration.\<close>

type_synonym instrument = "string option \<Rightarrow> real \<Rightarrow> real \<Rightarrow> real \<Rightarrow> bool"

text \<open>
  The refs and nodes the handlers read and write. An instrument that has not loaded yet
  is \<open>None\<close>. \<open>currentTime\<close> is the audio clock \<open>ctx.currentTime\<close>.
\<close>

record director =
  playing :: bool
  bpmRef :: real
  padLevel :: real
  leadLevel :: real
  fxLevel :: real
  currentTime :: real
  padInstrument :: "instrument option"
  stabInstrument :: "instrument option"
  leadInstrument :: "instrument option"
  arrangementState :: lookup
  chordRef :: chord
  fadeScheduled :: bool
  calls :: "sink_call list"

definition play :: "string \<Rightarrow> instrument \<Rightarrow> string option \<Rightarrow> real \<Rightarrow> real \<Rightarrow> real \<Rightarrow>
    director \<Rightarrow> director completion" where
  "play role inst note time gain duration d =
    (let d' = d\<lparr>calls := calls d @ [Play role note time gain duration]\<rparr>
     in if inst note time gain duration then Throws d' else Returns d')"

text \<open>\<open>a || b\<close> on note names: \<open>undefined\<close> and the empty string are falsy.\<close>

definition js_or :: "string option \<Rightarrow> string option \<Rightarrow> string option" where
  "js_or a b = (case a of None \<Rightarrow> b | Some s \<Rightarrow> if s = [] then b else Some s)"

text \<open>A note name as the regular expression sees it: \<open>undefined\<close> becomes the string \<open>undefined\<close>.\<close>

definition js_string :: "string option \<Rightarrow> string" where
  "js_string a = (case a of None \<Rightarrow> ''undefined'' | Some s \<Rightarrow> s)"

text \<open>\<open>notes.forEach((note, idx) => { try { inst.play(...) } catch {} })\<close>, from position \<open>idx\<close> on.\<close>

fun playEach :: "string \<Rightarrow> instrument \<Rightarrow> (nat \<Rightarrow> real) \<Rightarrow> real \<Rightarrow> real \<Rightarrow> nat \<Rightarrow>
    string option list \<Rightarrow> director \<Rightarrow> director" where
  "playEach role inst gainOf time duration idx [] d = d"
| "playEach role inst gainOf time duration idx (note # notes) d =
    playEach role inst gainOf time duration (Suc idx) notes
      (try_catch (play role inst note time (gainOf idx) duration d))"

definition schedulePadChord :: "real \<Rightarrow> chord \<Rightarrow> real \<Rightarrow> director \<Rightarrow> director" where
  "schedulePadChord time chord padAmt d =
    (case padInstrument d of
       None \<Rightarrow> d
     | Some inst \<Rightarrow>
        if \<not> playing d then d
        else (let secondsPerBeat = 60 / bpmRef d;
                  duration = secondsPerBeat * 4 * 0.95
              in playEach ''pad'' inst (\<lambda>idx. padAmt * (if idx = 0 then 0.6 else 0.4))
                   time duration 0 (map Some (pad chord)) d))"

definition maybeTriggerChordStab :: "real \<Rightarrow> chord \<Rightarrow> real \<Rightarrow> director \<Rightarrow> director" where
  "maybeTriggerChordStab time chord amt d =
    (case stabInstrument d of
       None \<Rightarrow> d
     | Some inst \<Rightarrow>
        if \<not> playing d then d
        else (let secondsPerBeat = 60 / bpmRef d;
                  duration = secondsPerBeat * 0.9;
                  voicing =
                    [js_or (js_index (pad chord) 1) (js_index (pad chord) 0),
                     js_or (js_index (pad chord) 3) (js_index (pad chord) 2),
                     js_or (js_index (pad chord) 4)
                       (Some (transpose_note (js_string (js_index (pad chord) 2)) 7))]
              in playEach ''stab'' inst (\<lambda>idx. amt * (if idx = 0 then 0.4 else 0.3))
                   time duration 0 voicing d))"

definition triggerImpact :: "real \<Rightarrow> real \<Rightarrow> director \<Rightarrow> director" where
  "triggerImpact time amt d =
    (if \<not> playing d then d else d\<lparr>calls := calls d @ [Impact time amt]\<rparr>)"

definition triggerRiser :: "real \<Rightarrow> real \<Rightarrow> real \<Rightarrow> director \<Rightarrow> director" where
  "triggerRiser time lengthSec amt d =
    (if \<not> playing d then d else d\<lparr>calls := calls d @ [Riser time lengthSec amt]\<rparr>)"

definition triggerDownshift :: "real \<Rightarrow> real \<Rightarrow> real \<Rightarrow> director \<Rightarrow> director" where
  "triggerDownshift time lengthSec amt d =
    (if \<not> playing d then d else d\<lparr>calls := calls d @ [Downshift time lengthSec amt]\<rparr>)"

text \<open>An entry of a lead pattern: \<open>{ idx, len16, vel }\<close>; \<open>len16\<close> may be absent (\<open>?? 2\<close>).\<close>

record lead_event =
  idx :: int
  len16 :: "real option"
  vel :: real



text \<open>
  The bar callback. Sections are compared by identity in the source; the seven sections
  of the arrangement differ in their names, so equality of the records is the same test.
  The bar count comes from the scheduler and is never negative, so
  \<open>CHORD_SEQUENCE[barCount % CHORD_SEQUENCE.length]\<close> is always an element of the sequence.
\<close>

definition handleBar :: "real \<Rightarrow> nat \<Rightarrow> director \<Rightarrow> director completion" where
  "handleBar time barCount d =
    (case getSectionForBar (int barCount) of
       None \<Rightarrow> Throws d
     | Some lookup \<Rightarrow>
        (let prev = arrangementState d;
             d1 = d\<lparr>arrangementState := lookup\<rparr>;
             changed = (sect prev \<noteq> sect lookup);
             chord = CHORD_SEQUENCE ! (barCount mod length CHORD_SEQUENCE);
             d2 = d1\<lparr>chordRef := chord\<rparr>;
             padAmt = i_pad (intensity (sect lookup)) * padLevel d2;
             d3 = schedulePadChord time chord padAmt d2;
             d4 = (if changed \<and> barCount > 0
                   then (let secondsPerBeat = 60 / bpmRef d3
                         in if fxMode (sect lookup) = ''impact''
                            then triggerImpact time
                                   (i_fx (intensity (sect lookup)) * fxLevel d3 * 1.1) d3
                            else if fxMode (sect lookup) = ''wash''
                            then triggerRiser time (secondsPerBeat * 6)
                                   (i_fx (intensity (sect lookup)) * fxLevel d3 * 0.7) d3
                            else if fxMode (sect lookup) = ''dive''
                            then triggerDownshift time (secondsPerBeat * 5)
                                   (i_fx (intensity (sect lookup)) * fxLevel d3) d3
                            else d3)
                   else d3);
             d5 = (if js_rem (offset lookup) 8 = 4 \<and> i_lead (intensity (sect lookup)) > 0.2
                   then maybeTriggerChordStab (time + 0.02) chord
                          (i_lead (intensity (sect lookup)) * 0.42 * leadLevel d4) d4
                   else d4);
             d6 = (if int barCount \<ge> TOTAL_BARS \<and> \<not> fadeScheduled d5
                   then d5\<lparr>fadeScheduled := True,
                           calls := calls d5 @
                             [CancelScheduledValues (currentTime d5),
                              SetTargetAtTime 0.0001 time 1.5,
                              DeferredStop 4000]\<rparr>
                   else d5)
         in Returns d6))"

text \<open>The bar callbacks of one run, in order: each is caught by the scheduler.\<close>

fun handleBars :: "(real \<times> nat) list \<Rightarrow> director \<Rightarrow> director" where
  "handleBars [] d = d"
| "handleBars ((time, barCount) # rest) d = handleBars rest (try_catch (handleBar time barCount d))"

text \<open>The fade transition among the calls made: the ramp of the master gain to near zero.\<close>

fun isFade :: "sink_call \<Rightarrow> bool" where
  "isFade (SetTargetAtTime v t c) = True"
| "isFade _ = False"

fun isDeferredStop :: "sink_call \<Rightarrow> bool" where
  "isDeferredStop (DeferredStop ms) = True"
| "isDeferredStop _ = False"

text \<open>
  The refs at the start of a run, as \<open>play()\<close> leaves them (fade flag cleared, arrangement
  state at section 0, first chord), with the stored settings at their defaults, no
  instrument loaded yet and the audio clock at \<open>now\<close>.
\<close>

definition directorAtPlay :: "real \<Rightarrow> director" where
  "directorAtPlay now =
    \<lparr>playing = True, bpmRef = 128, padLevel = 0.85, leadLevel = 0.8, fxLevel = 0.7,
     currentTime = now, padInstrument = None, stabInstrument = None, leadInstrument = None,
     arrangementState = \<lparr>sect = ARRANGEMENT ! 0, index = 0, offset = 0, isSectionStart = False\<rparr>,
     chordRef = CHORD_SEQUENCE ! 0, fadeScheduled = False, calls = []\<rparr>"

section \<open>The lookahead scheduler (audio/scheduler.js)\<close>

text \<open>
  The variables closed over by \<open>createScheduler\<close>. \<open>timerId\<close> is \<open>True\<close> while an interval
  timer is installed. The two callbacks are kept apart, in \<open>callbacks\<close>; they work on a
  state \<open>'a\<close> of their own and may throw.
\<close>

record scheduler =
  bpm :: real
  lookaheadMs :: real
  scheduleAheadSec :: real
  swing :: real
  nextNoteTime :: real
  current16th :: nat
  barCount :: nat
  timerId :: bool

record 'a callbacks =
  onSixteenth :: "real \<Rightarrow> nat \<Rightarrow> nat \<Rightarrow> 'a \<Rightarrow> 'a completion"
  onBar :: "real \<Rightarrow> nat \<Rightarrow> 'a \<Rightarrow> 'a completion"

definition DEFAULT_LOOKAHEAD_MS :: real where
  "DEFAULT_LOOKAHEAD_MS = 25"

definition DEFAULT_SCHEDULE_AHEAD_SEC :: real where
  "DEFAULT_SCHEDULE_AHEAD_SEC = 0.2"

text \<open>\<open>createScheduler(ctx, {})\<close>: every option at its default.\<close>

definition createScheduler :: scheduler where
  "createScheduler =
    \<lparr>bpm = 120, lookaheadMs = DEFAULT_LOOKAHEAD_MS, scheduleAheadSec = DEFAULT_SCHEDULE_AHEAD_SEC,
     swing = 0, nextNoteTime = 0, current16th = 0, barCount = 0, timerId = False\<rparr>"

definition defaultCallbacks :: "'a callbacks" where
  "defaultCallbacks = \<lparr>onSixteenth = (\<lambda>t s b. Returns), onBar = (\<lambda>t b. Returns)\<rparr>"

definition secondsPerBeat :: "scheduler \<Rightarrow> real" where
  "secondsPerBeat s = 60.0 / bpm s"

definition sixteenthDur :: "scheduler \<Rightarrow> real" where
  "sixteenthDur s = 0.25 * secondsPerBeat s"

definition swingOffset :: "scheduler \<Rightarrow> nat \<Rightarrow> real" where
  "swingOffset s ix16 =
    (if swing s = 0 then 0
     else (let isOff8th = (ix16 mod 4 = 2)
           in if isOff8th then swing s * sixteenthDur s else 0))"

definition advance :: "scheduler \<Rightarrow> scheduler" where
  "advance s =
    (let s1 = s\<lparr>nextNoteTime := nextNoteTime s + 0.25 * secondsPerBeat s\<rparr>;
         s2 = s1\<lparr>current16th := (current16th s1 + 1) mod 16\<rparr>
     in if current16th s2 = 0 then s2\<lparr>barCount := barCount s2 + 1\<rparr> else s2)"

text \<open>A callback invocation, with its arguments: what a poll emits.\<close>

datatype emitted = Sixteenth real nat nat | Bar real nat

text \<open>
  The scheduler together with the state of the handlers and the invocations made so far.
\<close>

record 'a machine =
  sched :: scheduler
  handlers :: 'a
  emittedLog :: "emitted list"

text \<open>One pass through the body of the \<open>while\<close> loop of \<open>schedule\<close>.\<close>

definition scheduleSlot :: "'a callbacks \<Rightarrow> 'a machine \<Rightarrow> 'a machine" where
  "scheduleSlot cbs m =
    (let s = sched m;
         tSwing = nextNoteTime s + swingOffset s (current16th s);
         m1 = m\<lparr>handlers := try_catch (onSixteenth cbs tSwing (current16th s) (barCount s) (handlers m)),
                emittedLog := emittedLog m @ [Sixteenth tSwing (current16th s) (barCount s)]\<rparr>;
         m2 = (if current16th s = 0
               then m1\<lparr>handlers := try_catch (onBar cbs (nextNoteTime s) (barCount s) (handlers m1)),
                       emittedLog := emittedLog m1 @ [Bar (nextNoteTime s) (barCount s)]\<rparr>
               else m1)
     in m2\<lparr>sched := advance s\<rparr>)"

text \<open>
  The \<open>while\<close> loop, for the clock reading \<open>now\<close> taken at the start of the poll. It need
  not end (a tempo that is not positive never reaches the horizon): \<open>None\<close> is a poll that
  does not return.
\<close>

partial_function (option) scheduleLoop :: "'a callbacks \<Rightarrow> real \<Rightarrow> 'a machine \<Rightarrow> 'a machine option" where
  "scheduleLoop cbs now m =
    (if nextNoteTime (sched m) < now + scheduleAheadSec (sched m)
     then scheduleLoop cbs now (scheduleSlot cbs m)
     else Some m)"

definition schedule :: "'a callbacks \<Rightarrow> real \<Rightarrow> 'a machine \<Rightarrow> 'a machine option" where
  "schedule cbs now m = scheduleLoop cbs now m"




text \<open>\<open>start(startDelaySec)\<close> at clock reading \<open>now\<close>; the timer then polls \<open>schedule\<close>.\<close>

definition start :: "real \<Rightarrow> real \<Rightarrow> scheduler \<Rightarrow> scheduler" where
  "start startDelaySec now s =
    (if timerId s then s
     else s\<lparr>nextNoteTime := now + startDelaySec, current16th := 0, barCount := 0, timerId := True\<rparr>)"

definition stop :: "scheduler \<Rightarrow> scheduler" where
  "stop s = (if timerId s then s\<lparr>timerId := False\<rparr> else s)"

definition setBpm :: "real \<Rightarrow> scheduler \<Rightarrow> scheduler" where
  "setBpm newBpm s = s\<lparr>bpm := newBpm\<rparr>"

text \<open>\<open>Number(newSwing) || 0\<close> is the number itself (zero stays zero).\<close>

definition setSwing :: "real \<Rightarrow> scheduler \<Rightarrow> scheduler" where
  "setSwing newSwing s = s\<lparr>swing := max 0 (min 0.75 newSwing)\<rparr>"

text \<open>The polls of the interval timer, one for each clock reading of the list.\<close>

fun polls :: "'a callbacks \<Rightarrow> real list \<Rightarrow> 'a machine \<Rightarrow> 'a machine option" where
  "polls cbs [] m = Some m"
| "polls cbs (now # nows) m =
    (case schedule cbs now m of None \<Rightarrow> None | Some m' \<Rightarrow> polls cbs nows m')"

text \<open>
  \<open>createScheduler(ctx, opts)\<close> with the four numeric options given.
\<close>

definition createSchedulerWith :: "real \<Rightarrow> real \<Rightarrow> real \<Rightarrow> real \<Rightarrow> scheduler" where
  "createSchedulerWith bpm0 lookaheadMs0 scheduleAheadSec0 swing0 =
    \<lparr>bpm = bpm0, lookaheadMs = lookaheadMs0, scheduleAheadSec = scheduleAheadSec0,
     swing = swing0, nextNoteTime = 0, current16th = 0, barCount = 0, timerId = False\<rparr>"

text \<open>
  What can happen to a scheduler after its creation: the calls of a client (\<open>start\<close> with the
  clock reading it finds, \<open>stop\<close>, the setters) and the slots a poll advances over. The
  states reachable are those some list of these leads to.
\<close>

datatype client_op = Start real real | Stop | SetBpm real | SetSwing real | Advance

fun applyOp :: "client_op \<Rightarrow> scheduler \<Rightarrow> scheduler" where
  "applyOp (Start startDelaySec now) s = start startDelaySec now s"
| "applyOp Stop s = stop s"
| "applyOp (SetBpm newBpm) s = setBpm newBpm s"
| "applyOp (SetSwing newSwing) s = setSwing newSwing s"
| "applyOp Advance s = advance s"

fun runOps :: "client_op list \<Rightarrow> scheduler \<Rightarrow> scheduler" where
  "runOps [] s = s"
| "runOps (x # xs) s = runOps xs (applyOp x s)"

section \<open>Progression changes (App.jsx)\<close>

definition DEFAULT_PROGRESS :: "string list list" where
  "DEFAULT_PROGRESS =
    [[''A3'', ''C4'', ''E4'', ''G4''],
     [''F3'', ''A3'', ''C4'', ''E4''],
     [''C3'', ''E3'', ''G3'', ''B3''],
     [''G3'', ''B3'', ''D4'', ''F4'']]"

definition MINOR_POOLS :: "string list list list" where
  "MINOR_POOLS =
    [DEFAULT_PROGRESS,
     [[''A3'', ''C4'', ''E4'', ''G4''],
      [''G3'', ''B3'', ''D4'', ''F4''],
      [''F3'', ''A3'', ''C4'', ''E4''],
      [''E3'', ''G#3'', ''B3'', ''D4'']],
     [[''D3'', ''F3'', ''A3'', ''C4''],
      [''G3'', ''B3'', ''D4'', ''F4''],
      [''C3'', ''E3'', ''G3'', ''B3''],
      [''A3'', ''C4'', ''E4'', ''G4'']]]"

definition CHANGE_EVERY_BARS :: nat where
  "CHANGE_EVERY_BARS = 16"

datatype app_call = PadChord real "string list" | BassRoot real "string option"

text \<open>
  The refs of the component. \<open>random\<close> holds the values the coming calls of
  \<open>Math.random()\<close> return, in order; a call takes the head.
\<close>

record app =
  barsSinceChange :: nat
  progIdx :: nat
  progression :: "string list list"
  barCountRef :: nat
  random :: "real stream"
  played :: "app_call list"

text \<open>
  The index chosen at a change, from one value \<open>r\<close> of \<open>Math.random()\<close>, for a pool of
  \<open>n\<close> progressions with \<open>prev\<close> the index in use.
\<close>

definition pickIndex :: "nat \<Rightarrow> nat \<Rightarrow> real \<Rightarrow> nat" where
  "pickIndex n prev r =
    (let idx = nat \<lfloor>r * real n\<rfloor>
     in if n > 1 \<and> idx = prev then (idx + 1) mod n else idx)"

text \<open>
  The progression change at the head of \<open>onBar\<close>. \<open>Math.random()\<close> is below 1, so the
  index is a position of the pool; were it not, the progression would be \<open>undefined\<close>
  and the read of its length below would throw: the empty progression stands for that.
\<close>

definition changeProgression :: "app \<Rightarrow> app" where
  "changeProgression a =
    (let a1 = a\<lparr>barsSinceChange := barsSinceChange a + 1\<rparr>
     in if barsSinceChange a1 mod CHANGE_EVERY_BARS = 0
        then (let r = shd (random a1);
                  idx = pickIndex (length MINOR_POOLS) (progIdx a1) r
              in a1\<lparr>random := stl (random a1), progIdx := idx,
                     progression := (case js_index MINOR_POOLS (int idx) of
                                        Some p \<Rightarrow> p | None \<Rightarrow> [])\<rparr>)
        else a1)"

text \<open>\<open>onBar\<close> of App.jsx. A chord that is \<open>undefined\<close> makes \<open>chord[0]\<close> throw.\<close>

definition App_onBar :: "real \<Rightarrow> nat \<Rightarrow> app \<Rightarrow> app completion" where
  "App_onBar time barIndex a =
    (let a1 = changeProgression a
     in if progression a1 = [] then Throws a1
        else (let chord = progression a1 ! (barIndex mod length (progression a1));
                  a2 = a1\<lparr>barCountRef := barIndex + 1\<rparr>
              in Returns (a2\<lparr>played := played a2 @
                            [PadChord time chord, BassRoot time (js_index chord 0)]\<rparr>)))"

section \<open>Properties: note names\<close>






section \<open>Properties: the timeline resolver\<close>

lemma foldl_bars: "foldl (\<lambda>acc s. acc + bars s) a xs = a + sum_list (map bars xs)"
  by (induction xs arbitrary: a) auto

lemma totalBars_sum: "totalBars xs = sum_list (map bars xs)"
  by (simp add: totalBars_def foldl_bars)

lemma totalBars_Cons: "totalBars (s # xs) = bars s + totalBars xs"
  by (simp add: totalBars_sum)

lemma sectionStart_Suc:
  "i < length arr \<Longrightarrow> sectionStart arr (Suc i) = sectionStart arr i + bars (arr ! i)"
  by (simp add: sectionStart_def totalBars_sum take_Suc_conv_app_nth)

lemma sectionStart_mono:
  assumes "\<forall>s \<in> set arr. 0 \<le> bars s" and "i \<le> j" and "j \<le> length arr"
  shows "sectionStart arr i \<le> sectionStart arr j"
  using assms(2,3)
proof (induction j)
  case 0
  then show ?case by simp
next
  case (Suc j)
  show ?case
  proof (cases "i = Suc j")
    case True
    then show ?thesis by simp
  next
    case False
    with Suc have "sectionStart arr i \<le> sectionStart arr j" by simp
    moreover have "0 \<le> bars (arr ! j)" using assms(1) Suc.prems by simp
    ultimately show ?thesis using Suc.prems by (simp add: sectionStart_Suc)
  qed
qed

lemma scanSections_found:
  assumes "\<forall>s \<in> set rest. 0 \<le> bars s" and "cursor \<le> bar" and "bar < cursor + totalBars rest"
  shows "\<exists>j < length rest.
           scanSections rest i cursor bar =
             Some \<lparr>sect = rest ! j, index = i + j, offset = bar - (cursor + totalBars (take j rest)),
                   isSectionStart = (bar = cursor + totalBars (take j rest))\<rparr> \<and>
           cursor + totalBars (take j rest) \<le> bar \<and>
           bar < cursor + totalBars (take j rest) + bars (rest ! j)"
  using assms
proof (induction rest arbitrary: i cursor)
  case Nil
  then show ?case by (simp add: totalBars_def)
next
  case (Cons s rest)
  show ?case
  proof (cases "bar < cursor + bars s")
    case True
    with Cons.prems have
      "scanSections (s # rest) i cursor bar =
         Some \<lparr>sect = (s # rest) ! 0, index = i + 0, offset = bar - (cursor + totalBars (take 0 (s # rest))),
               isSectionStart = (bar = cursor + totalBars (take 0 (s # rest)))\<rparr> \<and>
       cursor + totalBars (take 0 (s # rest)) \<le> bar \<and>
       bar < cursor + totalBars (take 0 (s # rest)) + bars ((s # rest) ! 0)"
      by (simp add: totalBars_def)
    then show ?thesis by blast
  next
    case False
    have "\<forall>s \<in> set rest. 0 \<le> bars s" using Cons.prems(1) by simp
    moreover have "cursor + bars s \<le> bar" using False by simp
    moreover have "bar < cursor + bars s + totalBars rest"
      using Cons.prems(3) by (simp add: totalBars_Cons)
    ultimately obtain j where j: "j < length rest"
      "scanSections rest (Suc i) (cursor + bars s) bar =
         Some \<lparr>sect = rest ! j, index = Suc i + j,
               offset = bar - (cursor + bars s + totalBars (take j rest)),
               isSectionStart = (bar = cursor + bars s + totalBars (take j rest))\<rparr>"
      "cursor + bars s + totalBars (take j rest) \<le> bar"
      "bar < cursor + bars s + totalBars (take j rest) + bars (rest ! j)"
      using Cons.IH [of "cursor + bars s" "Suc i"] by blast
    have "Suc j < length (s # rest) \<and>
      scanSections (s # rest) i cursor bar =
         Some \<lparr>sect = (s # rest) ! Suc j, index = i + Suc j,
               offset = bar - (cursor + totalBars (take (Suc j) (s # rest))),
               isSectionStart = (bar = cursor + totalBars (take (Suc j) (s # rest)))\<rparr> \<and>
       cursor + totalBars (take (Suc j) (s # rest)) \<le> bar \<and>
       bar < cursor + totalBars (take (Suc j) (s # rest)) + bars ((s # rest) ! Suc j)"
      using False j by (simp add: totalBars_Cons Let_def add.assoc)
    then show ?thesis by blast
  qed
qed

lemma resolveBar_partition:
  assumes pos: "\<forall>s \<in> set arr. 0 \<le> bars s" and lo: "0 \<le> bar" and hi: "bar < totalBars arr"
  shows "\<exists>i < length arr.
           resolveBar arr bar =
             Some \<lparr>sect = arr ! i, index = i, offset = bar - sectionStart arr i,
                   isSectionStart = (bar = sectionStart arr i)\<rparr> \<and>
           sectionStart arr i \<le> bar \<and> bar < sectionStart arr i + bars (arr ! i) \<and>
           (\<forall>j < length arr.
              sectionStart arr j \<le> bar \<and> bar < sectionStart arr j + bars (arr ! j) \<longrightarrow> j = i)"
proof -
  from scanSections_found [OF pos, of 0 bar 0] lo hi
  obtain i where i: "i < length arr"
    "scanSections arr 0 0 bar =
       Some \<lparr>sect = arr ! i, index = i, offset = bar - sectionStart arr i,
             isSectionStart = (bar = sectionStart arr i)\<rparr>"
    "sectionStart arr i \<le> bar" "bar < sectionStart arr i + bars (arr ! i)"
    by (auto simp: sectionStart_def)
  have uniq: "j = i"
    if j: "j < length arr" "sectionStart arr j \<le> bar" "bar < sectionStart arr j + bars (arr ! j)" for j
  proof (rule ccontr)
    assume "j \<noteq> i"
    then consider "j < i" | "i < j" by linarith
    then show False
    proof cases
      case 1
      then have "sectionStart arr (Suc j) \<le> sectionStart arr i"
        using sectionStart_mono [OF pos, of "Suc j" i] i(1) by simp
      then show False using j i(3) by (simp add: sectionStart_Suc)
    next
      case 2
      then have "sectionStart arr (Suc i) \<le> sectionStart arr j"
        using sectionStart_mono [OF pos, of "Suc i" j] j(1) by simp
      then show False using j i(1,4) by (simp add: sectionStart_Suc)
    qed
  qed
  have "resolveBar arr bar =
          Some \<lparr>sect = arr ! i, index = i, offset = bar - sectionStart arr i,
                isSectionStart = (bar = sectionStart arr i)\<rparr>"
    using i(2) by (simp add: resolveBar_def)
  with i uniq show ?thesis by blast
qed

lemma totalBars_nonneg: "\<forall>s \<in> set xs. 0 \<le> bars s \<Longrightarrow> 0 \<le> totalBars xs"
proof (induction xs)
  case Nil
  then show ?case by (simp add: totalBars_def)
next
  case (Cons s xs)
  then show ?case by (simp add: totalBars_Cons)
qed

lemma scanSections_past:
  "cursor + totalBars rest \<le> bar \<Longrightarrow> \<forall>s \<in> set rest. 0 \<le> bars s \<Longrightarrow> scanSections rest i cursor bar = None"
proof (induction rest arbitrary: i cursor)
  case Nil
  then show ?case by simp
next
  case (Cons s rest)
  have "0 \<le> totalBars rest" using Cons.prems(2) by (simp add: totalBars_nonneg)
  with Cons.prems have "\<not> bar < cursor + bars s" by (simp add: totalBars_Cons)
  moreover have "scanSections rest (Suc i) (cursor + bars s) bar = None"
    using Cons.IH [of "cursor + bars s" "Suc i"] Cons.prems by (simp add: totalBars_Cons add.assoc)
  ultimately show ?case by (simp add: Let_def)
qed

lemma resolveBar_clamp:
  assumes "\<forall>s \<in> set arr. 0 \<le> bars s" and "totalBars arr \<le> bar" and "arr \<noteq> []"
  shows "resolveBar arr bar =
           Some \<lparr>sect = last arr, index = length arr - 1, offset = bars (last arr) - 1,
                 isSectionStart = False\<rparr>"
  using scanSections_past [of 0 arr bar 0] assms
  by (simp add: resolveBar_def Let_def last_conv_nth)

lemma ARRANGEMENT_bars: "\<forall>s \<in> set ARRANGEMENT. 0 \<le> bars s"
  by (simp add: ARRANGEMENT_def)

lemma TOTAL_BARS_168: "TOTAL_BARS = 168"
  by (simp add: TOTAL_BARS_def totalBars_def ARRANGEMENT_def)

lemma ARRANGEMENT_length: "length ARRANGEMENT = 7"
  by (simp add: ARRANGEMENT_def)

lemma sectionStart_ARRANGEMENT:
  "sectionStart ARRANGEMENT 0 = 0" "sectionStart ARRANGEMENT 1 = 16"
  "sectionStart ARRANGEMENT 2 = 48" "sectionStart ARRANGEMENT 3 = 80"
  "sectionStart ARRANGEMENT 4 = 96" "sectionStart ARRANGEMENT 5 = 128"
  "sectionStart ARRANGEMENT 6 = 152" "sectionStart ARRANGEMENT 7 = 168"
  by (simp_all add: sectionStart_def totalBars_def ARRANGEMENT_def)

text \<open>
  Claim C3. For every bar in \<open>[0, TOTAL_BARS)\<close>, \<open>getSectionForBar\<close> returns the one section
  whose half-open interval \<open>[start, start + bars)\<close> holds the bar, with \<open>offset = bar - start\<close>
  and \<open>isSectionStart = (bar = start)\<close>; no other section's interval holds the bar, and every
  interval lies within \<open>[0, TOTAL_BARS)\<close>, so the intervals partition it. The section lengths
  are 16, 32, 32, 16, 32, 24, 16, and bars 0, 16 and 167 resolve to section 0 at offset 0
  (a start), section 1 at offset 0 (a start) and section 6 at offset 15 (not a start).
\<close>

theorem getSectionForBar_partition:
  "(0 \<le> bar \<and> bar < TOTAL_BARS \<longrightarrow>
      (\<exists>i < length ARRANGEMENT.
         getSectionForBar bar =
           Some \<lparr>sect = ARRANGEMENT ! i, index = i, offset = bar - sectionStart ARRANGEMENT i,
                 isSectionStart = (bar = sectionStart ARRANGEMENT i)\<rparr> \<and>
         sectionStart ARRANGEMENT i \<le> bar \<and>
         bar < sectionStart ARRANGEMENT i + bars (ARRANGEMENT ! i) \<and>
         (\<forall>j < length ARRANGEMENT.
            sectionStart ARRANGEMENT j \<le> bar \<and>
            bar < sectionStart ARRANGEMENT j + bars (ARRANGEMENT ! j) \<longrightarrow> j = i))) \<and>
   (j < length ARRANGEMENT \<longrightarrow>
      0 \<le> sectionStart ARRANGEMENT j \<and>
      sectionStart ARRANGEMENT j + bars (ARRANGEMENT ! j) \<le> TOTAL_BARS) \<and>
   map bars ARRANGEMENT = [16, 32, 32, 16, 32, 24, 16] \<and>
   getSectionForBar 0 =
     Some \<lparr>sect = ARRANGEMENT ! 0, index = 0, offset = 0, isSectionStart = True\<rparr> \<and>
   getSectionForBar 16 =
     Some \<lparr>sect = ARRANGEMENT ! 1, index = 1, offset = 0, isSectionStart = True\<rparr> \<and>
   getSectionForBar 167 =
     Some \<lparr>sect = ARRANGEMENT ! 6, index = 6, offset = 15, isSectionStart = False\<rparr>"
proof -
  have part: "0 \<le> bar \<and> bar < TOTAL_BARS \<longrightarrow>
      (\<exists>i < length ARRANGEMENT.
         getSectionForBar bar =
           Some \<lparr>sect = ARRANGEMENT ! i, index = i, offset = bar - sectionStart ARRANGEMENT i,
                 isSectionStart = (bar = sectionStart ARRANGEMENT i)\<rparr> \<and>
         sectionStart ARRANGEMENT i \<le> bar \<and>
         bar < sectionStart ARRANGEMENT i + bars (ARRANGEMENT ! i) \<and>
         (\<forall>j < length ARRANGEMENT.
            sectionStart ARRANGEMENT j \<le> bar \<and>
            bar < sectionStart ARRANGEMENT j + bars (ARRANGEMENT ! j) \<longrightarrow> j = i))"
    using resolveBar_partition [OF ARRANGEMENT_bars, of bar]
    by (simp add: getSectionForBar_def TOTAL_BARS_def)
  have inside: "j < length ARRANGEMENT \<longrightarrow>
      0 \<le> sectionStart ARRANGEMENT j \<and>
      sectionStart ARRANGEMENT j + bars (ARRANGEMENT ! j) \<le> TOTAL_BARS"
  proof
    assume j: "j < length ARRANGEMENT"
    have "sectionStart ARRANGEMENT 0 \<le> sectionStart ARRANGEMENT j"
      using sectionStart_mono [OF ARRANGEMENT_bars, of 0 j] j by simp
    moreover have "sectionStart ARRANGEMENT (Suc j) \<le> sectionStart ARRANGEMENT (length ARRANGEMENT)"
      using sectionStart_mono [OF ARRANGEMENT_bars, of "Suc j" "length ARRANGEMENT"] j by simp
    ultimately show "0 \<le> sectionStart ARRANGEMENT j \<and>
      sectionStart ARRANGEMENT j + bars (ARRANGEMENT ! j) \<le> TOTAL_BARS"
      using j by (simp add: sectionStart_Suc) (simp add: sectionStart_def TOTAL_BARS_def totalBars_def)
  qed
  have lens: "map bars ARRANGEMENT = [16, 32, 32, 16, 32, 24, 16]"
    by (simp add: ARRANGEMENT_def)
  have ex0: "getSectionForBar 0 =
     Some \<lparr>sect = ARRANGEMENT ! 0, index = 0, offset = 0, isSectionStart = True\<rparr>"
    by (simp add: getSectionForBar_def resolveBar_def ARRANGEMENT_def)
  have ex16: "getSectionForBar 16 =
     Some \<lparr>sect = ARRANGEMENT ! 1, index = 1, offset = 0, isSectionStart = True\<rparr>"
    by (simp add: getSectionForBar_def resolveBar_def ARRANGEMENT_def)
  have ex167: "getSectionForBar 167 =
     Some \<lparr>sect = ARRANGEMENT ! 6, index = 6, offset = 15, isSectionStart = False\<rparr>"
    by (simp add: getSectionForBar_def resolveBar_def ARRANGEMENT_def)
  from part inside lens ex0 ex16 ex167 show ?thesis by blast
qed

theorem getSectionForBar_partition_witness:
  "(0::int) \<le> 100 \<and> 100 < TOTAL_BARS \<and> 4 < length ARRANGEMENT \<and>
   getSectionForBar 100 =
     Some \<lparr>sect = ARRANGEMENT ! 4, index = 4, offset = 4, isSectionStart = False\<rparr> \<and>
   sectionStart ARRANGEMENT 4 = 96 \<and> sectionStart ARRANGEMENT 4 + bars (ARRANGEMENT ! 4) = 128 \<and>
   128 \<le> TOTAL_BARS"
proof -
  have a: "(0::int) \<le> 100 \<and> 100 < TOTAL_BARS" by (simp add: TOTAL_BARS_168)
  have l: "4 < length ARRANGEMENT" by (simp add: ARRANGEMENT_length)
  have b: "bars (ARRANGEMENT ! 4) = 32" by (simp add: ARRANGEMENT_def)
  have in4: "sectionStart ARRANGEMENT 4 \<le> 100 \<and> 100 < sectionStart ARRANGEMENT 4 + bars (ARRANGEMENT ! 4)"
    by (simp add: sectionStart_ARRANGEMENT b)
  from getSectionForBar_partition [of 100 4] a l obtain i where
    i: "i < length ARRANGEMENT"
       "getSectionForBar 100 =
           Some \<lparr>sect = ARRANGEMENT ! i, index = i, offset = 100 - sectionStart ARRANGEMENT i,
                 isSectionStart = (100 = sectionStart ARRANGEMENT i)\<rparr>"
       "\<forall>j < length ARRANGEMENT.
            sectionStart ARRANGEMENT j \<le> 100 \<and>
            100 < sectionStart ARRANGEMENT j + bars (ARRANGEMENT ! j) \<longrightarrow> j = i"
       and top: "sectionStart ARRANGEMENT 4 + bars (ARRANGEMENT ! 4) \<le> TOTAL_BARS"
    by blast
  from i(3) l in4 have "i = 4" by blast
  with i(2) top a l show ?thesis by (simp add: sectionStart_ARRANGEMENT b)
qed

section \<open>Properties: the scheduler\<close>

lemma advance_simps:
  "bpm (advance s) = bpm s"
  "lookaheadMs (advance s) = lookaheadMs s"
  "scheduleAheadSec (advance s) = scheduleAheadSec s"
  "swing (advance s) = swing s"
  "timerId (advance s) = timerId s"
  "nextNoteTime (advance s) = nextNoteTime s + sixteenthDur s"
  "current16th (advance s) = (current16th s + 1) mod 16"
  "barCount (advance s) = (if (current16th s + 1) mod 16 = 0 then barCount s + 1 else barCount s)"
  by (simp_all add: advance_def Let_def sixteenthDur_def)


















lemmas sched_defs = schedule_def scheduleSlot_def start_def setSwing_def createScheduler_def advance_def swingOffset_def secondsPerBeat_def sixteenthDur_def defaultCallbacks_def DEFAULT_SCHEDULE_AHEAD_SEC_def DEFAULT_LOOKAHEAD_MS_def Let_def


text \<open>
  Claim C4. The swing offset added to the time of the sixteenth callback is non-zero only
  for a slot with \<open>slot mod 4 = 2\<close>, and for such a slot it is \<open>swing * sixteenthDur\<close>; the
  sixteenth callback of a slot gets \<open>nextNoteTime + swingOffset\<close> and the bar callback of slot
  0 gets \<open>nextNoteTime\<close> itself; \<open>setSwing\<close> stores its argument clamped to \<open>[0, 0.75]\<close>.
  At tempo 120 (a sixteenth of 0.125) with swing 0.2 and \<open>start(0.05)\<close> at clock reading 10,
  a poll at 10.2 calls the sixteenth callback of slot 2 of bar 0 with time 10.325. (Times
  are exact here; the doubles of the program round this sum to 10.325000000000001.)
\<close>

theorem swing_offset_off8th:
  "(swingOffset s slot \<noteq> 0 \<longrightarrow> slot mod 4 = 2) \<and>
   (slot mod 4 = 2 \<longrightarrow> swingOffset s slot = swing s * sixteenthDur s) \<and>
   emittedLog (scheduleSlot cbs m) =
     emittedLog m @
     Sixteenth (nextNoteTime (sched m) + swingOffset (sched m) (current16th (sched m)))
       (current16th (sched m)) (barCount (sched m)) #
     (if current16th (sched m) = 0 then [Bar (nextNoteTime (sched m)) (barCount (sched m))] else []) \<and>
   swing (setSwing amount s) = max 0 (min 0.75 amount) \<and>
   0 \<le> swing (setSwing amount s) \<and> swing (setSwing amount s) \<le> 0.75 \<and>
   sixteenthDur (setSwing 0.2 createScheduler) = 0.125 \<and>
   map_option emittedLog
     (polls defaultCallbacks [10.2]
        \<lparr>sched = start 0.05 10 (setSwing 0.2 createScheduler), handlers = (), emittedLog = []\<rparr>) =
     Some [Sixteenth 10.05 0 0, Bar 10.05 0, Sixteenth 10.175 1 0, Sixteenth 10.325 2 0]"
proof -
  have a: "swingOffset s slot \<noteq> 0 \<longrightarrow> slot mod 4 = 2"
    by (simp add: swingOffset_def Let_def)
  have b: "slot mod 4 = 2 \<longrightarrow> swingOffset s slot = swing s * sixteenthDur s"
    by (simp add: swingOffset_def Let_def)
  have c: "emittedLog (scheduleSlot cbs m) =
     emittedLog m @
     Sixteenth (nextNoteTime (sched m) + swingOffset (sched m) (current16th (sched m)))
       (current16th (sched m)) (barCount (sched m)) #
     (if current16th (sched m) = 0 then [Bar (nextNoteTime (sched m)) (barCount (sched m))] else [])"
    by (simp add: scheduleSlot_def Let_def)
  have d: "swing (setSwing amount s) = max 0 (min 0.75 amount)"
    by (simp add: setSwing_def)
  have e: "0 \<le> swing (setSwing amount s) \<and> swing (setSwing amount s) \<le> 0.75"
    by (simp add: setSwing_def)
  have f: "sixteenthDur (setSwing 0.2 createScheduler) = 0.125"
    by (simp add: sched_defs)
  have g: "map_option emittedLog
     (polls defaultCallbacks [10.2]
        \<lparr>sched = start 0.05 10 (setSwing 0.2 createScheduler), handlers = (), emittedLog = []\<rparr>) =
     Some [Sixteenth 10.05 0 0, Bar 10.05 0, Sixteenth 10.175 1 0, Sixteenth 10.325 2 0]"
    by (simp add: sched_defs scheduleLoop.simps)
  from a b c d e f g show ?thesis by blast
qed

theorem swing_offset_off8th_witness:
  "(2::nat) mod 4 = 2 \<and>
   swingOffset (setSwing 0.2 createScheduler) 2 = 0.025 \<and>
   swingOffset (setSwing 0.2 createScheduler) 2 \<noteq> 0 \<and>
   sixteenthDur (setSwing 0.2 createScheduler) = 0.125 \<and>
   swing (setSwing 2 createScheduler) = 0.75"
proof -
  have v: "swing (setSwing 0.2 createScheduler) = 0.2" by (simp add: setSwing_def)
  have m: "(2::nat) mod 4 = 2" by simp
  from swing_offset_off8th [of "setSwing 0.2 createScheduler" 2 defaultCallbacks
      "\<lparr>sched = createScheduler, handlers = (), emittedLog = []\<rparr>" 2] m
  have o: "swingOffset (setSwing 0.2 createScheduler) 2 =
             swing (setSwing 0.2 createScheduler) * sixteenthDur (setSwing 0.2 createScheduler)"
    and d: "sixteenthDur (setSwing 0.2 createScheduler) = 0.125"
    by blast+
  from o have p: "swingOffset (setSwing 0.2 createScheduler) 2 = 0.2 * 0.125"
    unfolding v d .
  have q: "swingOffset (setSwing 0.2 createScheduler) 2 = 0.025"
    unfolding p by simp
  have w: "swing (setSwing 2 createScheduler) = 0.75"
    using swing_offset_off8th [of createScheduler 2 defaultCallbacks
      "\<lparr>sched = createScheduler, handlers = (), emittedLog = []\<rparr>" 2] by simp
  have nz: "swingOffset (setSwing 0.2 createScheduler) 2 \<noteq> 0"
    unfolding q by simp
  from m q nz d w show ?thesis by blast
qed

lemma applyOp_slot: "current16th s < 16 \<Longrightarrow> current16th (applyOp x s) < 16"
  by (cases x) (simp_all add: start_def stop_def setBpm_def setSwing_def advance_simps)

lemma runOps_slot: "current16th s < 16 \<Longrightarrow> current16th (runOps xs s) < 16"
  by (induction xs arbitrary: s) (simp_all add: applyOp_slot)

lemma advance_funpow_slot:
  "current16th s < 16 \<Longrightarrow> current16th ((advance ^^ n) s) = (current16th s + n) mod 16"
  by (induction n) (simp_all add: advance_simps mod_Suc_eq mod_simps)

lemma advance_funpow_bar:
  "current16th s < 16 \<Longrightarrow> barCount ((advance ^^ n) s) = barCount s + (current16th s + n) div 16"
proof (induction n)
  case 0
  then show ?case by simp
next
  case (Suc n)
  have "(current16th s + Suc n) div 16 =
          (current16th s + n) div 16 + (if ((current16th s + n) mod 16 + 1) mod 16 = 0 then 1 else 0)"
    by (simp add: div_Suc mod_Suc)
  with Suc show ?case
    by (simp add: advance_simps advance_funpow_slot)
qed

text \<open>
  Claim C5. In every scheduler state reachable after creation (by \<open>start\<close>, \<open>stop\<close>, the
  setters and the slots polls advance over), \<open>current16th\<close> is below 16; an advance takes
  it to \<open>(current16th + 1) mod 16\<close> and adds one to \<open>barCount\<close> exactly when the slot wraps to
  0 (that is, from slot 15); sixteen advances run through sixteen consecutive slots modulo
  16, come back to the same slot and add exactly one bar; and \<open>n\<close> advances after a \<open>start\<close>
  that takes effect give slot \<open>n mod 16\<close> and bar \<open>n div 16\<close>.
\<close>

theorem slot_cycle:
  "current16th (runOps xs (createSchedulerWith b l a w)) < 16 \<and>
   current16th (advance (runOps xs (createSchedulerWith b l a w))) =
     (current16th (runOps xs (createSchedulerWith b l a w)) + 1) mod 16 \<and>
   barCount (advance (runOps xs (createSchedulerWith b l a w))) =
     (if current16th (advance (runOps xs (createSchedulerWith b l a w))) = 0
      then barCount (runOps xs (createSchedulerWith b l a w)) + 1
      else barCount (runOps xs (createSchedulerWith b l a w))) \<and>
   (current16th (advance (runOps xs (createSchedulerWith b l a w))) = 0 \<longleftrightarrow>
      current16th (runOps xs (createSchedulerWith b l a w)) = 15) \<and>
   map (\<lambda>k. current16th ((advance ^^ k) (runOps xs (createSchedulerWith b l a w)))) [0..<16] =
     map (\<lambda>k. (current16th (runOps xs (createSchedulerWith b l a w)) + k) mod 16) [0..<16] \<and>
   current16th ((advance ^^ 16) (runOps xs (createSchedulerWith b l a w))) =
     current16th (runOps xs (createSchedulerWith b l a w)) \<and>
   barCount ((advance ^^ 16) (runOps xs (createSchedulerWith b l a w))) =
     barCount (runOps xs (createSchedulerWith b l a w)) + 1 \<and>
   (\<not> timerId s0 \<longrightarrow>
      current16th ((advance ^^ n) (start startDelaySec now s0)) = n mod 16 \<and>
      barCount ((advance ^^ n) (start startDelaySec now s0)) = n div 16)"
proof -
  define s where "s = runOps xs (createSchedulerWith b l a w)"
  have lt: "current16th s < 16"
    unfolding s_def by (rule runOps_slot) (simp add: createSchedulerWith_def)
  have wrap: "current16th (advance s) = 0 \<longleftrightarrow> current16th s = 15"
    using lt by (simp add: advance_simps) presburger
  have cyc: "map (\<lambda>k. current16th ((advance ^^ k) s)) [0..<16] =
           map (\<lambda>k. (current16th s + k) mod 16) [0..<16]"
    by (simp only: advance_funpow_slot [OF lt])
  have b16: "barCount ((advance ^^ 16) s) = barCount s + 1"
    using lt advance_funpow_bar [OF lt, of 16] by simp
  have st: "\<not> timerId s0 \<longrightarrow>
            current16th ((advance ^^ n) (start startDelaySec now s0)) = n mod 16 \<and>
            barCount ((advance ^^ n) (start startDelaySec now s0)) = n div 16"
  proof
    assume "\<not> timerId s0"
    then have z: "current16th (start startDelaySec now s0) = 0" "barCount (start startDelaySec now s0) = 0"
      by (simp_all add: start_def)
    then show "current16th ((advance ^^ n) (start startDelaySec now s0)) = n mod 16 \<and>
            barCount ((advance ^^ n) (start startDelaySec now s0)) = n div 16"
      using advance_funpow_bar [of "start startDelaySec now s0" n]
      by (simp add: advance_funpow_slot)
  qed
  have "current16th s < 16 \<and>
         current16th (advance s) = (current16th s + 1) mod 16 \<and>
         barCount (advance s) = (if current16th (advance s) = 0 then barCount s + 1 else barCount s) \<and>
         (current16th (advance s) = 0 \<longleftrightarrow> current16th s = 15) \<and>
         map (\<lambda>k. current16th ((advance ^^ k) s)) [0..<16] =
           map (\<lambda>k. (current16th s + k) mod 16) [0..<16] \<and>
         current16th ((advance ^^ 16) s) = current16th s \<and>
         barCount ((advance ^^ 16) s) = barCount s + 1"
    using lt wrap cyc b16 by (simp add: advance_simps advance_funpow_slot)
  with st show ?thesis unfolding s_def by blast
qed

theorem slot_cycle_witness:
  "runOps [Start 0.05 10, SetBpm 96, Advance] (createSchedulerWith 120 25 0.2 0) =
     \<lparr>bpm = 96, lookaheadMs = 25, scheduleAheadSec = 0.2, swing = 0, nextNoteTime = 10.20625,
      current16th = 1, barCount = 0, timerId = True\<rparr> \<and>
   current16th (advance (runOps [Start 0.05 10, SetBpm 96, Advance] (createSchedulerWith 120 25 0.2 0))) = 2 \<and>
   \<not> timerId (createSchedulerWith 120 25 0.2 0) \<and>
   current16th ((advance ^^ 35) (start 0.05 10 (createSchedulerWith 120 25 0.2 0))) = 3 \<and>
   barCount ((advance ^^ 35) (start 0.05 10 (createSchedulerWith 120 25 0.2 0))) = 2"
proof -
  have r: "runOps [Start 0.05 10, SetBpm 96, Advance] (createSchedulerWith 120 25 0.2 0) =
     \<lparr>bpm = 96, lookaheadMs = 25, scheduleAheadSec = 0.2, swing = 0, nextNoteTime = 10.20625,
      current16th = 1, barCount = 0, timerId = True\<rparr>"
    by (simp add: createSchedulerWith_def start_def setBpm_def advance_def secondsPerBeat_def Let_def)
  have t: "\<not> timerId (createSchedulerWith 120 25 0.2 0)" by (simp add: createSchedulerWith_def)
  from slot_cycle [where xs = "[Start 0.05 10, SetBpm 96, Advance]" and b = 120 and l = 25
      and a = "0.2" and w = 0 and ?s0.0 = "createSchedulerWith 120 25 0.2 0" and n = 35
      and startDelaySec = "0.05" and now = 10] t
  have "current16th (advance (runOps [Start 0.05 10, SetBpm 96, Advance] (createSchedulerWith 120 25 0.2 0))) =
          (current16th (runOps [Start 0.05 10, SetBpm 96, Advance] (createSchedulerWith 120 25 0.2 0)) + 1) mod 16"
    and n: "current16th ((advance ^^ 35) (start 0.05 10 (createSchedulerWith 120 25 0.2 0))) = 35 mod 16"
      "barCount ((advance ^^ 35) (start 0.05 10 (createSchedulerWith 120 25 0.2 0))) = 35 div 16"
    by blast+
  then have two: "current16th (advance (runOps [Start 0.05 10, SetBpm 96, Advance] (createSchedulerWith 120 25 0.2 0))) = 2"
    unfolding r by simp
  from r two t n show ?thesis by simp
qed




section \<open>Properties: the Director\<close>

lemma getSectionForBar_clamp:
  "TOTAL_BARS \<le> bar \<Longrightarrow>
   getSectionForBar bar =
     Some \<lparr>sect = ARRANGEMENT ! 6, index = 6, offset = 15, isSectionStart = False\<rparr>"
  using resolveBar_clamp [OF ARRANGEMENT_bars, of bar]
  by (simp add: getSectionForBar_def TOTAL_BARS_def) (simp add: ARRANGEMENT_def)

lemma getSectionForBar_Some: "0 \<le> bar \<Longrightarrow> \<exists>l. getSectionForBar bar = Some l"
proof (cases "bar < TOTAL_BARS")
  case True
  assume "0 \<le> bar"
  with True resolveBar_partition [OF ARRANGEMENT_bars, of bar] show ?thesis
    by (auto simp: getSectionForBar_def TOTAL_BARS_def)
next
  case False
  then show ?thesis using getSectionForBar_clamp [of bar] by simp
qed

text \<open>What the parts of the bar handler leave alone.\<close>

lemma play_keeps:
  "fadeScheduled (try_catch (play role inst n t g dur d)) = fadeScheduled d"
  "currentTime (try_catch (play role inst n t g dur d)) = currentTime d"
  "filter isFade (calls (try_catch (play role inst n t g dur d))) = filter isFade (calls d)"
  "filter isDeferredStop (calls (try_catch (play role inst n t g dur d))) = filter isDeferredStop (calls d)"
  by (simp_all add: play_def Let_def)

lemma playEach_keeps:
  "fadeScheduled (playEach role inst g t dur i ns d) = fadeScheduled d"
  "currentTime (playEach role inst g t dur i ns d) = currentTime d"
  "filter isFade (calls (playEach role inst g t dur i ns d)) = filter isFade (calls d)"
  "filter isDeferredStop (calls (playEach role inst g t dur i ns d)) = filter isDeferredStop (calls d)"
  by (induction ns arbitrary: i d) (simp_all add: play_keeps)

lemma schedulePadChord_keeps:
  "fadeScheduled (schedulePadChord t c a d) = fadeScheduled d"
  "currentTime (schedulePadChord t c a d) = currentTime d"
  "filter isFade (calls (schedulePadChord t c a d)) = filter isFade (calls d)"
  "filter isDeferredStop (calls (schedulePadChord t c a d)) = filter isDeferredStop (calls d)"
  by (simp_all add: schedulePadChord_def playEach_keeps Let_def split: option.splits)

lemma maybeTriggerChordStab_keeps:
  "fadeScheduled (maybeTriggerChordStab t c a d) = fadeScheduled d"
  "currentTime (maybeTriggerChordStab t c a d) = currentTime d"
  "filter isFade (calls (maybeTriggerChordStab t c a d)) = filter isFade (calls d)"
  "filter isDeferredStop (calls (maybeTriggerChordStab t c a d)) = filter isDeferredStop (calls d)"
  by (simp_all add: maybeTriggerChordStab_def play_keeps Let_def split: option.splits)

lemma fx_keeps:
  "fadeScheduled (triggerImpact t a d) = fadeScheduled d"
  "filter isFade (calls (triggerImpact t a d)) = filter isFade (calls d)"
  "filter isDeferredStop (calls (triggerImpact t a d)) = filter isDeferredStop (calls d)"
  "fadeScheduled (triggerRiser t l a d) = fadeScheduled d"
  "filter isFade (calls (triggerRiser t l a d)) = filter isFade (calls d)"
  "filter isDeferredStop (calls (triggerRiser t l a d)) = filter isDeferredStop (calls d)"
  "fadeScheduled (triggerDownshift t l a d) = fadeScheduled d"
  "filter isFade (calls (triggerDownshift t l a d)) = filter isFade (calls d)"
  "filter isDeferredStop (calls (triggerDownshift t l a d)) = filter isDeferredStop (calls d)"
  by (simp_all add: triggerImpact_def triggerRiser_def triggerDownshift_def)

lemma fx_keeps_more:
  "currentTime (triggerImpact t a d) = currentTime d"
  "chordRef (triggerImpact t a d) = chordRef d"
  "currentTime (triggerRiser t l a d) = currentTime d"
  "chordRef (triggerRiser t l a d) = chordRef d"
  "currentTime (triggerDownshift t l a d) = currentTime d"
  "chordRef (triggerDownshift t l a d) = chordRef d"
  by (simp_all add: triggerImpact_def triggerRiser_def triggerDownshift_def)

lemma play_keeps_chord: "chordRef (try_catch (play role inst n t g dur d)) = chordRef d"
  by (simp add: play_def Let_def)

lemma playEach_keeps_chord: "chordRef (playEach role inst g t dur i ns d) = chordRef d"
  by (induction ns arbitrary: i d) (simp_all add: play_keeps_chord)

lemma pad_stab_keeps_chord:
  "chordRef (schedulePadChord t c a d) = chordRef d"
  "chordRef (maybeTriggerChordStab t c a d) = chordRef d"
  by (simp_all add: schedulePadChord_def maybeTriggerChordStab_def playEach_keeps_chord
        play_keeps_chord Let_def split: option.splits)

text \<open>
  The bar handler in two steps: everything before the fade block gives a state \<open>d5\<close> with
  the new chord, the fade flag and the fade calls untouched; the fade block follows.
\<close>

lemma handleBar_steps:
  assumes "getSectionForBar (int b) = Some l"
  shows "\<exists>d5. fadeScheduled d5 = fadeScheduled d \<and>
           filter isFade (calls d5) = filter isFade (calls d) \<and>
           filter isDeferredStop (calls d5) = filter isDeferredStop (calls d) \<and>
           chordRef d5 = CHORD_SEQUENCE ! (b mod length CHORD_SEQUENCE) \<and>
           handleBar t b d =
             Returns (if TOTAL_BARS \<le> int b \<and> \<not> fadeScheduled d5
                      then d5\<lparr>fadeScheduled := True,
                              calls := calls d5 @
                                [CancelScheduledValues (currentTime d5),
                                 SetTargetAtTime 0.0001 t 1.5, DeferredStop 4000]\<rparr>
                      else d5)"
proof -
  define chord where "chord = CHORD_SEQUENCE ! (b mod length CHORD_SEQUENCE)"
  define d2 where "d2 = d\<lparr>arrangementState := l, chordRef := chord\<rparr>"
  define d3 where "d3 = schedulePadChord t chord (i_pad (intensity (sect l)) * padLevel d2) d2"
  define d4 where "d4 =
    (if sect (arrangementState d) \<noteq> sect l \<and> b > 0
     then (if fxMode (sect l) = ''impact''
           then triggerImpact t (i_fx (intensity (sect l)) * fxLevel d3 * 1.1) d3
           else if fxMode (sect l) = ''wash''
           then triggerRiser t (60 / bpmRef d3 * 6) (i_fx (intensity (sect l)) * fxLevel d3 * 0.7) d3
           else if fxMode (sect l) = ''dive''
           then triggerDownshift t (60 / bpmRef d3 * 5) (i_fx (intensity (sect l)) * fxLevel d3) d3
           else d3)
     else d3)"
  define d5 where "d5 =
    (if js_rem (offset l) 8 = 4 \<and> i_lead (intensity (sect l)) > 0.2
     then maybeTriggerChordStab (t + 0.02) chord (i_lead (intensity (sect l)) * 0.42 * leadLevel d4) d4
     else d4)"
  have k3: "fadeScheduled d3 = fadeScheduled d" "filter isFade (calls d3) = filter isFade (calls d)"
    "filter isDeferredStop (calls d3) = filter isDeferredStop (calls d)" "chordRef d3 = chord"
    by (simp_all add: d3_def d2_def schedulePadChord_keeps pad_stab_keeps_chord)
  have k4: "fadeScheduled d4 = fadeScheduled d" "filter isFade (calls d4) = filter isFade (calls d)"
    "filter isDeferredStop (calls d4) = filter isDeferredStop (calls d)" "chordRef d4 = chord"
    by (simp_all add: d4_def k3 fx_keeps fx_keeps_more)
  have k5: "fadeScheduled d5 = fadeScheduled d" "filter isFade (calls d5) = filter isFade (calls d)"
    "filter isDeferredStop (calls d5) = filter isDeferredStop (calls d)" "chordRef d5 = chord"
    by (simp_all add: d5_def k4 maybeTriggerChordStab_keeps pad_stab_keeps_chord)
  have "handleBar t b d =
          Returns (if TOTAL_BARS \<le> int b \<and> \<not> fadeScheduled d5
                   then d5\<lparr>fadeScheduled := True,
                           calls := calls d5 @
                             [CancelScheduledValues (currentTime d5),
                              SetTargetAtTime 0.0001 t 1.5, DeferredStop 4000]\<rparr>
                   else d5)"
    unfolding handleBar_def assms d5_def d4_def d3_def d2_def chord_def
    by (simp only: Let_def option.case)
  with k5 show ?thesis unfolding chord_def by blast
qed

lemma handleBar_fade:
  "fadeScheduled (try_catch (handleBar t b d)) = (fadeScheduled d \<or> TOTAL_BARS \<le> int b)"
  "filter isFade (calls (try_catch (handleBar t b d))) =
     filter isFade (calls d) @
       (if TOTAL_BARS \<le> int b \<and> \<not> fadeScheduled d then [SetTargetAtTime 0.0001 t 1.5] else [])"
  "filter isDeferredStop (calls (try_catch (handleBar t b d))) =
     filter isDeferredStop (calls d) @
       (if TOTAL_BARS \<le> int b \<and> \<not> fadeScheduled d then [DeferredStop 4000] else [])"
proof -
  obtain l where l: "getSectionForBar (int b) = Some l"
    using getSectionForBar_Some [of "int b"] by auto
  from handleBar_steps [OF l, of d t] obtain d5 where
    d5: "fadeScheduled d5 = fadeScheduled d"
      "filter isFade (calls d5) = filter isFade (calls d)"
      "filter isDeferredStop (calls d5) = filter isDeferredStop (calls d)"
      "handleBar t b d =
             Returns (if TOTAL_BARS \<le> int b \<and> \<not> fadeScheduled d5
                      then d5\<lparr>fadeScheduled := True,
                              calls := calls d5 @
                                [CancelScheduledValues (currentTime d5),
                                 SetTargetAtTime 0.0001 t 1.5, DeferredStop 4000]\<rparr>
                      else d5)"
    by blast
  show "fadeScheduled (try_catch (handleBar t b d)) = (fadeScheduled d \<or> TOTAL_BARS \<le> int b)"
    using d5 by auto
  show "filter isFade (calls (try_catch (handleBar t b d))) =
     filter isFade (calls d) @
       (if TOTAL_BARS \<le> int b \<and> \<not> fadeScheduled d then [SetTargetAtTime 0.0001 t 1.5] else [])"
    using d5 by simp
  show "filter isDeferredStop (calls (try_catch (handleBar t b d))) =
     filter isDeferredStop (calls d) @
       (if TOTAL_BARS \<le> int b \<and> \<not> fadeScheduled d then [DeferredStop 4000] else [])"
    using d5 by simp
qed

lemma handleBars_fade:
  "fadeScheduled (handleBars cs d) = (fadeScheduled d \<or> (\<exists>c \<in> set cs. TOTAL_BARS \<le> int (snd c)))"
  "filter isFade (calls (handleBars cs d)) =
     filter isFade (calls d) @
       (if fadeScheduled d then []
        else map (\<lambda>c. SetTargetAtTime 0.0001 (fst c) 1.5)
               (take 1 (filter (\<lambda>c. TOTAL_BARS \<le> int (snd c)) cs)))"
  "filter isDeferredStop (calls (handleBars cs d)) =
     filter isDeferredStop (calls d) @
       (if fadeScheduled d then []
        else map (\<lambda>c. DeferredStop 4000)
               (take 1 (filter (\<lambda>c. TOTAL_BARS \<le> int (snd c)) cs)))"
proof (induction cs arbitrary: d)
  case Nil
  { case 1 show ?case by simp }
  { case 2 show ?case by simp }
  { case 3 show ?case by simp }
next
  case (Cons c cs)
  obtain t b where c: "c = (t, b)" by (cases c)
  { case 1 show ?case using Cons.IH(1) [of "try_catch (handleBar t b d)"]
      by (auto simp: c handleBar_fade) }
  { case 2 show ?case using Cons.IH(2) [of "try_catch (handleBar t b d)"]
      by (simp add: c handleBar_fade) }
  { case 3 show ?case using Cons.IH(3) [of "try_catch (handleBar t b d)"]
      by (simp add: c handleBar_fade) }
qed

text \<open>
  Claim C6. Take any bar callbacks of one run, in order, starting with the fade flag
  cleared (as \<open>play()\<close> leaves it). The ramp of the master gain to 0.0001 and the deferred
  stop are each issued exactly once if some callback has \<open>barCount \<ge> TOTAL_BARS\<close>, namely
  by the first such callback (the ramp starts at that callback's time), and never
  otherwise; the flag is set from then on. For every bar at or beyond \<open>TOTAL_BARS\<close> (168),
  \<open>getSectionForBar\<close> gives the last section with offset its length minus one and
  \<open>isSectionStart = False\<close>; bar 168 gives section 6 with offset 15.
\<close>

theorem fade_scheduled_once:
  "(\<not> fadeScheduled d \<longrightarrow>
      filter isFade (calls (handleBars cs d)) =
        filter isFade (calls d) @
          map (\<lambda>c. SetTargetAtTime 0.0001 (fst c) 1.5)
            (take 1 (filter (\<lambda>c. TOTAL_BARS \<le> int (snd c)) cs)) \<and>
      filter isDeferredStop (calls (handleBars cs d)) =
        filter isDeferredStop (calls d) @
          map (\<lambda>c. DeferredStop 4000) (take 1 (filter (\<lambda>c. TOTAL_BARS \<le> int (snd c)) cs)) \<and>
      fadeScheduled (handleBars cs d) = (\<exists>c \<in> set cs. TOTAL_BARS \<le> int (snd c))) \<and>
   (TOTAL_BARS \<le> bar \<longrightarrow>
      getSectionForBar bar =
        Some \<lparr>sect = last ARRANGEMENT, index = length ARRANGEMENT - 1,
              offset = bars (last ARRANGEMENT) - 1, isSectionStart = False\<rparr>) \<and>
   TOTAL_BARS = 168 \<and>
   getSectionForBar 168 =
     Some \<lparr>sect = ARRANGEMENT ! 6, index = 6, offset = 15, isSectionStart = False\<rparr>"
proof -
  have clamp: "TOTAL_BARS \<le> bar \<longrightarrow>
      getSectionForBar bar =
        Some \<lparr>sect = last ARRANGEMENT, index = length ARRANGEMENT - 1,
              offset = bars (last ARRANGEMENT) - 1, isSectionStart = False\<rparr>"
    using resolveBar_clamp [OF ARRANGEMENT_bars, of bar]
    by (simp add: getSectionForBar_def TOTAL_BARS_def) (simp add: ARRANGEMENT_def)
  have ex: "getSectionForBar 168 =
     Some \<lparr>sect = ARRANGEMENT ! 6, index = 6, offset = 15, isSectionStart = False\<rparr>"
    by (rule getSectionForBar_clamp) (simp add: TOTAL_BARS_168)
  show ?thesis
    using clamp ex TOTAL_BARS_168 by (simp add: handleBars_fade)
qed

theorem fade_scheduled_once_witness:
  "\<not> fadeScheduled (directorAtPlay 0) \<and> TOTAL_BARS \<le> 170 \<and>
   filter isFade (calls (handleBars [(1, 167), (2, 168), (3, 169)] (directorAtPlay 0))) =
     [SetTargetAtTime 0.0001 2 1.5] \<and>
   filter isDeferredStop (calls (handleBars [(1, 167), (2, 168), (3, 169)] (directorAtPlay 0))) =
     [DeferredStop 4000] \<and>
   fadeScheduled (handleBars [(1, 167), (2, 168), (3, 169)] (directorAtPlay 0)) \<and>
   getSectionForBar 170 =
     Some \<lparr>sect = last ARRANGEMENT, index = length ARRANGEMENT - 1,
           offset = bars (last ARRANGEMENT) - 1, isSectionStart = False\<rparr>"
proof -
  have f: "\<not> fadeScheduled (directorAtPlay 0)" "calls (directorAtPlay 0) = []"
    by (simp_all add: directorAtPlay_def)
  have t: "TOTAL_BARS \<le> 170" by (simp add: TOTAL_BARS_168)
  from fade_scheduled_once [of "directorAtPlay 0" "[(1, 167), (2, 168), (3, 169)]" 170] f t
  show ?thesis by (simp add: TOTAL_BARS_168)
qed

text \<open>
  Claim C7, as the code has it. The chord the bar handler selects for bar \<open>b\<close> is
  \<open>CHORD_SEQUENCE ! (b mod length CHORD_SEQUENCE)\<close>, whatever the time, the section and the rest
  of the state; the handler returns. The sequence has length 8, so the chord at bar 8 is the
  chord at bar 0; both bars lie in the same section (section 0 spans bars 0 to 15). At bar 16
  the chord is again that of bar 0 and the section differs. In App.jsx the chord of a bar is
  the entry \<open>barIndex mod length\<close> of the progression in use.
\<close>

theorem chord_by_bar:
  "chordRef (try_catch (handleBar t b d)) = CHORD_SEQUENCE ! (b mod length CHORD_SEQUENCE) \<and>
   chordRef (try_catch (handleBar t b d)) = chordRef (try_catch (handleBar t' b d')) \<and>
   (\<exists>d1. handleBar t b d = Returns d1) \<and>
   length CHORD_SEQUENCE = 8 \<and>
   chordRef (try_catch (handleBar t 8 d)) = chordRef (try_catch (handleBar t' 0 d')) \<and>
   map_option sect (getSectionForBar 8) = map_option sect (getSectionForBar 0) \<and>
   chordRef (try_catch (handleBar t 16 d)) = chordRef (try_catch (handleBar t' 0 d')) \<and>
   map_option sect (getSectionForBar 16) \<noteq> map_option sect (getSectionForBar 0) \<and>
   (progression (changeProgression a) \<noteq> [] \<longrightarrow>
      (\<exists>a'. App_onBar t b a = Returns a' \<and>
            played a' = played a @
              [PadChord t (progression (changeProgression a) !
                             (b mod length (progression (changeProgression a)))),
               BassRoot t (js_index (progression (changeProgression a) !
                             (b mod length (progression (changeProgression a)))) 0)]))"
proof -
  have st: "\<exists>d1. handleBar t b d = Returns d1 \<and>
                chordRef d1 = CHORD_SEQUENCE ! (b mod length CHORD_SEQUENCE)" for t b d
  proof -
    obtain l where l: "getSectionForBar (int b) = Some l"
      using getSectionForBar_Some [of "int b"] by auto
    from handleBar_steps [OF l, of d t] show ?thesis by auto
  qed
  have ch: "chordRef (try_catch (handleBar t b d)) = CHORD_SEQUENCE ! (b mod length CHORD_SEQUENCE)"
    for t b d
    using st [of t b d] by auto
  have ret: "\<exists>d1. handleBar t b d = Returns d1"
    using st [of t b d] by blast
  have len: "length CHORD_SEQUENCE = 8" by (simp add: CHORD_SEQUENCE_def)
  have s8: "map_option sect (getSectionForBar 8) = map_option sect (getSectionForBar 0)"
    by (simp add: getSectionForBar_def resolveBar_def ARRANGEMENT_def)
  have s16: "map_option sect (getSectionForBar 16) \<noteq> map_option sect (getSectionForBar 0)"
    by (simp add: getSectionForBar_def resolveBar_def ARRANGEMENT_def)
  have pl: "played (changeProgression a) = played a"
    by (simp add: changeProgression_def Let_def)
  have app: "progression (changeProgression a) \<noteq> [] \<longrightarrow>
      (\<exists>a'. App_onBar t b a = Returns a' \<and>
            played a' = played a @
              [PadChord t (progression (changeProgression a) !
                             (b mod length (progression (changeProgression a)))),
               BassRoot t (js_index (progression (changeProgression a) !
                             (b mod length (progression (changeProgression a)))) 0)])"
    by (simp add: App_onBar_def Let_def pl)
  show ?thesis using s8 s16 ret app by (simp add: ch len)
qed

theorem chord_by_bar_witness:
  "chordRef (try_catch (handleBar 1 8 (directorAtPlay 0))) = fm9 \<and>
   chordRef (try_catch (handleBar 2 0 (directorAtPlay 0))) = fm9 \<and>
   chordRef (try_catch (handleBar 3 17 (directorAtPlay 0))) = dbMaj9 \<and>
   progression (changeProgression
     \<lparr>barsSinceChange = 0, progIdx = 0, progression = DEFAULT_PROGRESS, barCountRef = 0,
      random = sconst 0, played = []\<rparr>) \<noteq> [] \<and>
   (\<exists>a'. App_onBar 1 5
        \<lparr>barsSinceChange = 0, progIdx = 0, progression = DEFAULT_PROGRESS, barCountRef = 0,
         random = sconst 0, played = []\<rparr> = Returns a' \<and>
      played a' = [PadChord 1 [''F3'', ''A3'', ''C4'', ''E4''], BassRoot 1 (Some ''F3'')])"
proof -
  let ?a = "\<lparr>barsSinceChange = 0, progIdx = 0, progression = DEFAULT_PROGRESS, barCountRef = 0,
      random = sconst 0, played = []\<rparr>"
  have p: "progression (changeProgression ?a) = DEFAULT_PROGRESS"
    by (simp add: changeProgression_def CHANGE_EVERY_BARS_def Let_def)
  have ne: "progression (changeProgression ?a) \<noteq> []"
    unfolding p by (simp add: DEFAULT_PROGRESS_def)
  have c8: "chordRef (try_catch (handleBar 1 8 (directorAtPlay 0))) =
              CHORD_SEQUENCE ! (8 mod length CHORD_SEQUENCE)"
    by (rule chord_by_bar [THEN conjunct1])
  have c0: "chordRef (try_catch (handleBar 2 0 (directorAtPlay 0))) =
              CHORD_SEQUENCE ! (0 mod length CHORD_SEQUENCE)"
    by (rule chord_by_bar [THEN conjunct1])
  have c17: "chordRef (try_catch (handleBar 3 17 (directorAtPlay 0))) =
              CHORD_SEQUENCE ! (17 mod length CHORD_SEQUENCE)"
    by (rule chord_by_bar [THEN conjunct1])
  have v: "CHORD_SEQUENCE ! (8 mod length CHORD_SEQUENCE) = fm9"
    "CHORD_SEQUENCE ! (0 mod length CHORD_SEQUENCE) = fm9"
    "CHORD_SEQUENCE ! (17 mod length CHORD_SEQUENCE) = dbMaj9"
    by (simp_all add: CHORD_SEQUENCE_def)
  have "progression (changeProgression ?a) \<noteq> [] \<longrightarrow>
      (\<exists>a'. App_onBar 1 5 ?a = Returns a' \<and>
            played a' = played ?a @
              [PadChord 1 (progression (changeProgression ?a) !
                             (5 mod length (progression (changeProgression ?a)))),
               BassRoot 1 (js_index (progression (changeProgression ?a) !
                             (5 mod length (progression (changeProgression ?a)))) 0)])"
    by (rule chord_by_bar [THEN conjunct2, THEN conjunct2, THEN conjunct2, THEN conjunct2,
          THEN conjunct2, THEN conjunct2, THEN conjunct2, THEN conjunct2])
  with ne obtain a' where a': "App_onBar 1 5 ?a = Returns a'"
    "played a' = played ?a @
              [PadChord 1 (progression (changeProgression ?a) !
                             (5 mod length (progression (changeProgression ?a)))),
               BassRoot 1 (js_index (progression (changeProgression ?a) !
                             (5 mod length (progression (changeProgression ?a)))) 0)]"
    by blast
  have e: "DEFAULT_PROGRESS ! (5 mod length DEFAULT_PROGRESS) = [''F3'', ''A3'', ''C4'', ''E4'']"
    by (simp add: DEFAULT_PROGRESS_def)
  have "played a' = [PadChord 1 [''F3'', ''A3'', ''C4'', ''E4''], BassRoot 1 (Some ''F3'')]"
    using a'(2) unfolding p e by (simp add: js_index_def)
  with a'(1) have "\<exists>a'. App_onBar 1 5 ?a = Returns a' \<and>
      played a' = [PadChord 1 [''F3'', ''A3'', ''C4'', ''E4''], BassRoot 1 (Some ''F3'')]"
    by blast
  with c8 c0 c17 ne show ?thesis unfolding v by blast
qed

text \<open>
  Bars 0 and 8 resolve to the same section, section 0: at bar 8 the chord has come round
  and the section has not changed.
\<close>

theorem section_at_bar_8_same:
  "map_option sect (getSectionForBar 8) = map_option sect (getSectionForBar 0) \<and>
   map_option index (getSectionForBar 8) = Some 0 \<and>
   map_option index (getSectionForBar 0) = Some 0"
  by (simp add: getSectionForBar_def resolveBar_def ARRANGEMENT_def)






section \<open>Properties: progression changes\<close>

lemma floor_draw_less:
  assumes "0 \<le> r" and "r < 1" and "0 < n"
  shows "nat \<lfloor>r * real n\<rfloor> < n"
proof -
  have "r * real n < real n" using assms by simp
  then have "\<lfloor>r * real n\<rfloor> < int n" by (simp add: floor_less_iff)
  moreover have "0 \<le> \<lfloor>r * real n\<rfloor>" using assms by simp
  ultimately show ?thesis by linarith
qed

lemma pickIndex_props:
  assumes "0 \<le> r" and "r < 1" and "1 < n"
  shows "pickIndex n prev r < n" and "pickIndex n prev r \<noteq> prev"
    and "pickIndex n prev r = (if nat \<lfloor>r * real n\<rfloor> = prev then (prev + 1) mod n else nat \<lfloor>r * real n\<rfloor>)"
proof -
  have lt: "nat \<lfloor>r * real n\<rfloor> < n" using assms by (simp add: floor_draw_less)
  show "pickIndex n prev r < n"
    using lt assms(3) by (simp add: pickIndex_def Let_def)
  show "pickIndex n prev r \<noteq> prev"
  proof (cases "nat \<lfloor>r * real n\<rfloor> = prev")
    case True
    then have "prev < n" using lt by simp
    then have "(prev + 1) mod n \<noteq> prev"
      using assms(3) by (cases "prev + 1 = n") (simp_all add: mod_if)
    with True assms(3) show ?thesis by (simp add: pickIndex_def Let_def)
  next
    case False
    then show ?thesis by (simp add: pickIndex_def Let_def)
  qed
  show "pickIndex n prev r = (if nat \<lfloor>r * real n\<rfloor> = prev then (prev + 1) mod n else nat \<lfloor>r * real n\<rfloor>)"
    using assms(3) by (simp add: pickIndex_def Let_def)
qed

lemma MINOR_POOLS_length: "length MINOR_POOLS = 3"
  by (simp add: MINOR_POOLS_def)

text \<open>
  Claim C8, as the code has it. \<open>onBar\<close> counts its calls; at the call that takes the
  count to a multiple of \<open>CHANGE_EVERY_BARS\<close> it takes one value \<open>r\<close> of \<open>Math.random()\<close>,
  computes \<open>floor (r * 3)\<close> and, if that is the index in use, moves on to the next index
  modulo 3, with no second draw. The index chosen is a position of the pool and differs from
  the index in use; at every other call index, progression and random source are unchanged.
\<close>

theorem progression_change:
  "(0 \<le> r \<and> r < 1 \<and> 1 < n \<longrightarrow>
      pickIndex n prev r < n \<and> pickIndex n prev r \<noteq> prev \<and>
      pickIndex n prev r =
        (if nat \<lfloor>r * real n\<rfloor> = prev then (prev + 1) mod n else nat \<lfloor>r * real n\<rfloor>)) \<and>
   length MINOR_POOLS = 3 \<and>
   barsSinceChange (changeProgression a) = barsSinceChange a + 1 \<and>
   ((barsSinceChange a + 1) mod CHANGE_EVERY_BARS = 0 \<and> 0 \<le> shd (random a) \<and> shd (random a) < 1 \<longrightarrow>
      progIdx (changeProgression a) = pickIndex (length MINOR_POOLS) (progIdx a) (shd (random a)) \<and>
      progIdx (changeProgression a) \<noteq> progIdx a \<and>
      progIdx (changeProgression a) < length MINOR_POOLS \<and>
      progression (changeProgression a) = MINOR_POOLS ! progIdx (changeProgression a) \<and>
      random (changeProgression a) = stl (random a)) \<and>
   ((barsSinceChange a + 1) mod CHANGE_EVERY_BARS \<noteq> 0 \<longrightarrow>
      progIdx (changeProgression a) = progIdx a \<and>
      progression (changeProgression a) = progression a \<and>
      random (changeProgression a) = random a)"
proof -
  have p: "0 \<le> r \<and> r < 1 \<and> 1 < n \<longrightarrow>
      pickIndex n prev r < n \<and> pickIndex n prev r \<noteq> prev \<and>
      pickIndex n prev r =
        (if nat \<lfloor>r * real n\<rfloor> = prev then (prev + 1) mod n else nat \<lfloor>r * real n\<rfloor>)"
    using pickIndex_props [of r n prev] by blast
  have c: "barsSinceChange (changeProgression a) = barsSinceChange a + 1"
    by (simp add: changeProgression_def Let_def)
  have ch: "(barsSinceChange a + 1) mod CHANGE_EVERY_BARS = 0 \<and> 0 \<le> shd (random a) \<and> shd (random a) < 1 \<longrightarrow>
      progIdx (changeProgression a) = pickIndex (length MINOR_POOLS) (progIdx a) (shd (random a)) \<and>
      progIdx (changeProgression a) \<noteq> progIdx a \<and>
      progIdx (changeProgression a) < length MINOR_POOLS \<and>
      progression (changeProgression a) = MINOR_POOLS ! progIdx (changeProgression a) \<and>
      random (changeProgression a) = stl (random a)"
  proof
    assume h: "(barsSinceChange a + 1) mod CHANGE_EVERY_BARS = 0 \<and> 0 \<le> shd (random a) \<and> shd (random a) < 1"
    have i: "progIdx (changeProgression a) = pickIndex (length MINOR_POOLS) (progIdx a) (shd (random a))"
      "random (changeProgression a) = stl (random a)"
      "progression (changeProgression a) =
         (case js_index MINOR_POOLS (int (progIdx (changeProgression a))) of Some p \<Rightarrow> p | None \<Rightarrow> [])"
      using h by (simp_all add: changeProgression_def Let_def)
    have lt: "pickIndex (length MINOR_POOLS) (progIdx a) (shd (random a)) < length MINOR_POOLS"
      and ne: "pickIndex (length MINOR_POOLS) (progIdx a) (shd (random a)) \<noteq> progIdx a"
      using h pickIndex_props(1,2) [of "shd (random a)" "length MINOR_POOLS" "progIdx a"]
      by (simp_all add: MINOR_POOLS_length)
    have "progression (changeProgression a) = MINOR_POOLS ! progIdx (changeProgression a)"
      using i(1,3) lt by (simp add: js_index_def)
    with i lt ne show "progIdx (changeProgression a) = pickIndex (length MINOR_POOLS) (progIdx a) (shd (random a)) \<and>
      progIdx (changeProgression a) \<noteq> progIdx a \<and>
      progIdx (changeProgression a) < length MINOR_POOLS \<and>
      progression (changeProgression a) = MINOR_POOLS ! progIdx (changeProgression a) \<and>
      random (changeProgression a) = stl (random a)"
      by simp
  qed
  have no: "(barsSinceChange a + 1) mod CHANGE_EVERY_BARS \<noteq> 0 \<longrightarrow>
      progIdx (changeProgression a) = progIdx a \<and>
      progression (changeProgression a) = progression a \<and>
      random (changeProgression a) = random a"
    by (simp add: changeProgression_def Let_def)
  from p MINOR_POOLS_length c ch no show ?thesis by blast
qed

theorem progression_change_witness:
  "(0::real) \<le> 1 / 2 \<and> (1::real) / 2 < 1 \<and> (1::nat) < 3 \<and>
   pickIndex 3 1 (1 / 2) = 2 \<and>
   (15 + 1) mod CHANGE_EVERY_BARS = 0 \<and>
   progIdx (changeProgression
     \<lparr>barsSinceChange = 15, progIdx = 1, progression = MINOR_POOLS ! 1, barCountRef = 15,
      random = 1 / 2 ## sconst 0, played = []\<rparr>) = 2 \<and>
   progIdx (changeProgression
     \<lparr>barsSinceChange = 16, progIdx = 1, progression = MINOR_POOLS ! 1, barCountRef = 16,
      random = 1 / 2 ## sconst 0, played = []\<rparr>) = 1"
proof -
  have r: "(0::real) \<le> 1 / 2 \<and> (1::real) / 2 < 1 \<and> (1::nat) < 3" by simp
  have m: "(15 + 1) mod CHANGE_EVERY_BARS = 0" "(16 + 1) mod CHANGE_EVERY_BARS \<noteq> 0"
    by (simp_all add: CHANGE_EVERY_BARS_def)
  have f: "nat \<lfloor>(1::real) / 2 * real (3::nat)\<rfloor> = 1" by simp
  from progression_change [of "1 / 2" 3 1
      "\<lparr>barsSinceChange = 15, progIdx = 1, progression = MINOR_POOLS ! 1, barCountRef = 15,
        random = 1 / 2 ## sconst 0, played = []\<rparr>"] r m(1) f
  have a: "pickIndex 3 1 (1 / 2) = 2"
    and b: "progIdx (changeProgression
     \<lparr>barsSinceChange = 15, progIdx = 1, progression = MINOR_POOLS ! 1, barCountRef = 15,
      random = 1 / 2 ## sconst 0, played = []\<rparr>) = 2"
    by simp_all
  from progression_change [of "1 / 2" 3 1
      "\<lparr>barsSinceChange = 16, progIdx = 1, progression = MINOR_POOLS ! 1, barCountRef = 16,
        random = 1 / 2 ## sconst 0, played = []\<rparr>"] m(2)
  have c: "progIdx (changeProgression
     \<lparr>barsSinceChange = 16, progIdx = 1, progression = MINOR_POOLS ! 1, barCountRef = 16,
      random = 1 / 2 ## sconst 0, played = []\<rparr>) = 1"
    by simp
  from r m(1) a b c show ?thesis by blast
qed

text \<open>
  With index 0 in use, the draws 1/6, 1/2 and 5/6 (one in each third of the unit interval)
  choose the indices 1, 1 and 2: index 1 is chosen for two thirds of the draws. After the
  draw 1/6, which hits the index in use, the index is 1 and the next value of the random
  source, 5/6, has not been taken.
\<close>

theorem pick_is_successor_not_reroll:
  "map (pickIndex 3 0) [1 / 6, 1 / 2, 5 / 6] = [1, 1, 2] \<and>
   progIdx (changeProgression
     \<lparr>barsSinceChange = 15, progIdx = 0, progression = DEFAULT_PROGRESS, barCountRef = 15,
      random = 1 / 6 ## 5 / 6 ## sconst 0, played = []\<rparr>) = 1 \<and>
   random (changeProgression
     \<lparr>barsSinceChange = 15, progIdx = 0, progression = DEFAULT_PROGRESS, barCountRef = 15,
      random = 1 / 6 ## 5 / 6 ## sconst 0, played = []\<rparr>) = 5 / 6 ## sconst 0"
  by (simp add: pickIndex_def changeProgression_def CHANGE_EVERY_BARS_def MINOR_POOLS_def Let_def)

end
